theory Spec2Isabelle
  imports Main "HOL-Library.List_Lexorder" "HOL-Library.Multiset"
begin

section \<open>Python strings and the builtins the script uses\<close>

text \<open>
  A Python \<open>str\<close> is a sequence of Unicode code points: \<open>len\<close> counts code points and
  comparison is lexicographic on them. A string is therefore a list of code points, ordered
  by the lexicographic order of lists. \<open>py\<close> turns an ASCII literal into such a string.
\<close>

type_synonym pystr = "nat list"

definition py :: "string \<Rightarrow> pystr" where
  "py s = map of_char s"

text \<open>
  What Python does on code points outside ASCII comes from the Unicode character database,
  which is not part of the script. It is a parameter of the model: the classification of a
  non-ASCII code point as alphanumeric or whitespace, and the results of \<open>str.lower\<close> and
  \<open>str.title\<close> on a string that is not pure ASCII. On ASCII everything is written out.
\<close>

record ucd =
  uni_alnum :: "nat \<Rightarrow> bool"
  uni_space :: "nat \<Rightarrow> bool"
  uni_lower :: "pystr \<Rightarrow> pystr"
  uni_title :: "pystr \<Rightarrow> pystr"

definition is_space :: "ucd \<Rightarrow> nat \<Rightarrow> bool" where
  "is_space U c =
     (if c < 128 then (9 \<le> c \<and> c \<le> 13) \<or> (28 \<le> c \<and> c \<le> 32) else uni_space U c)"

definition is_alnum :: "ucd \<Rightarrow> nat \<Rightarrow> bool" where
  "is_alnum U c =
     (if c < 128 then (48 \<le> c \<and> c \<le> 57) \<or> (65 \<le> c \<and> c \<le> 90) \<or> (97 \<le> c \<and> c \<le> 122)
      else uni_alnum U c)"

definition is_ascii :: "pystr \<Rightarrow> bool" where
  "is_ascii s = list_all (\<lambda>c. c < 128) s"

definition ascii_alpha :: "nat \<Rightarrow> bool" where
  "ascii_alpha c = ((65 \<le> c \<and> c \<le> 90) \<or> (97 \<le> c \<and> c \<le> 122))"

definition ascii_lower :: "nat \<Rightarrow> nat" where
  "ascii_lower c = (if 65 \<le> c \<and> c \<le> 90 then c + 32 else c)"

definition ascii_upper :: "nat \<Rightarrow> nat" where
  "ascii_upper c = (if 97 \<le> c \<and> c \<le> 122 then c - 32 else c)"

text \<open>\<open>s.lower()\<close>\<close>

definition str_lower :: "ucd \<Rightarrow> pystr \<Rightarrow> pystr" where
  "str_lower U s = (if is_ascii s then map ascii_lower s else uni_lower U s)"

text \<open>
  \<open>s.title()\<close>: a character that follows a cased character is lower-cased, any other
  character is title-cased; the flag is whether the previous character is cased (on ASCII,
  a letter).
\<close>

fun ascii_title :: "bool \<Rightarrow> pystr \<Rightarrow> pystr" where
  "ascii_title previous_is_cased [] = []"
| "ascii_title previous_is_cased (c # cs) =
     (if previous_is_cased then ascii_lower c else ascii_upper c) # ascii_title (ascii_alpha c) cs"

definition str_title :: "ucd \<Rightarrow> pystr \<Rightarrow> pystr" where
  "str_title U s = (if is_ascii s then ascii_title False s else uni_title U s)"

text \<open>\<open>s.replace(old, new)\<close> for one-character \<open>old\<close> and \<open>new\<close>\<close>

definition str_replace :: "nat \<Rightarrow> nat \<Rightarrow> pystr \<Rightarrow> pystr" where
  "str_replace old new s = map (\<lambda>c. if c = old then new else c) s"

text \<open>\<open>s.ljust(width)\<close>: pads with spaces on the right, and never truncates\<close>

definition ljust :: "nat \<Rightarrow> pystr \<Rightarrow> pystr" where
  "ljust width s = s @ replicate (width - length s) 32"

text \<open>\<open>sep.join(xs)\<close>\<close>

fun str_join :: "pystr \<Rightarrow> pystr list \<Rightarrow> pystr" where
  "str_join sep [] = []"
| "str_join sep [x] = x"
| "str_join sep (x # y # ys) = x @ sep @ str_join sep (y # ys)"

text \<open>\<open>str(n)\<close> for a non-negative integer, as an f-string formats it\<close>

fun str_nat :: "nat \<Rightarrow> pystr" where
  "str_nat n = (if n < 10 then [48 + n] else str_nat (n div 10) @ [48 + n mod 10])"

declare str_nat.simps [simp del]

section \<open>Regular expressions\<close>

text \<open>
  The patterns of the script are built from literal characters, the classes \<open>\s\<close> and
  \<open>\w\<close>, bracket sets, concatenation, alternation and the greedy quantifiers \<open>*\<close> and
  \<open>+\<close>, with one capturing group each. \<open>ms U r s\<close> lists, in the order in which Python's
  backtracking matcher tries them, what is left of \<open>s\<close> after each way of matching \<open>r\<close>
  at the start of \<open>s\<close>: an alternation tries its left branch first, a greedy star tries
  one more iteration before it tries to stop. An iteration of a star that consumes nothing
  is not repeated; the script stars one-character sets only, whose iterations always
  consume a character.
\<close>

datatype cclass = Chr nat | Space | Word

fun in_cclass :: "ucd \<Rightarrow> cclass \<Rightarrow> nat \<Rightarrow> bool" where
  "in_cclass U (Chr k) c = (c = k)"
| "in_cclass U Space c = is_space U c"
| "in_cclass U Word c = (is_alnum U c \<or> c = 95)"

text \<open>A bracket set \<open>[...]\<close> matches a character that one of its items matches\<close>

definition in_set :: "ucd \<Rightarrow> cclass list \<Rightarrow> nat \<Rightarrow> bool" where
  "in_set U cs c = (\<exists>k \<in> set cs. in_cclass U k c)"

datatype regex = Eps | In "cclass list" | Seq regex regex | Alt regex regex | Star regex

function ms :: "ucd \<Rightarrow> regex \<Rightarrow> pystr \<Rightarrow> pystr list" where
  "ms U Eps s = [s]"
| "ms U (In cs) s =
     (case s of [] \<Rightarrow> [] | c # t \<Rightarrow> if in_set U cs c then [t] else [])"
| "ms U (Seq a b) s = concat (map (\<lambda>t. ms U b t) (ms U a s))"
| "ms U (Alt a b) s = ms U a s @ ms U b s"
| "ms U (Star a) s =
     concat (map (\<lambda>t. if length t < length s then ms U (Star a) t else []) (ms U a s)) @ [s]"
  by pat_completeness auto
termination
  by (relation "measures [\<lambda>(U, r, s). size r, \<lambda>(U, r, s). length s]") auto

declare ms.simps [simp del]

definition lit :: "pystr \<Rightarrow> regex" where
  "lit s = foldr (\<lambda>c r. Seq (In [Chr c]) r) s Eps"

definition rplus :: "regex \<Rightarrow> regex" where
  "rplus r = Seq r (Star r)"

text \<open>
  A pattern with one capturing group is the regex before the group, the group's regex and
  the regex after it. \<open>match_at\<close> is the text of group 1 in the first way (in backtracking
  order) to match the whole pattern at the start of \<open>s\<close>, and \<open>re_search\<close> is
  \<open>re.search(pattern, s)\<close> followed by \<open>.group(1)\<close>: the match at the leftmost position
  that has one, \<open>None\<close> when no position has.
\<close>

type_synonym pattern = "regex \<times> regex \<times> regex"

definition match_at :: "ucd \<Rightarrow> pattern \<Rightarrow> pystr \<Rightarrow> pystr option" where
  "match_at U p s =
     (case p of (pre, grp, post) \<Rightarrow>
        (case [take (length t - length u) t.
                 t \<leftarrow> ms U pre s, u \<leftarrow> ms U grp t, v \<leftarrow> ms U post u] of
           [] \<Rightarrow> None
         | g # _ \<Rightarrow> Some g))"

fun re_search :: "ucd \<Rightarrow> pattern \<Rightarrow> pystr \<Rightarrow> pystr option" where
  "re_search U p [] = match_at U p []"
| "re_search U p (c # s) =
     (case match_at U p (c # s) of Some g \<Rightarrow> Some g | None \<Rightarrow> re_search U p s)"

text \<open>\<open>attr\s*=\s*\<close>, the start of all five patterns\<close>

definition assign_re :: "string \<Rightarrow> regex" where
  "assign_re attr =
     Seq (lit (py attr)) (Seq (Star (In [Space])) (Seq (In [Chr 61]) (Star (In [Space]))))"

text \<open>The set \<open>["\']\<close>: a double or a single quote\<close>

definition quote :: regex where
  "quote = In [Chr 34, Chr 39]"

definition stream_type_pat :: pattern where
  "stream_type_pat = (Seq (assign_re ''_stream_type'') quote, rplus (In [Word]), quote)"

definition drm_pat :: pattern where
  "drm_pat = (assign_re ''_drm'', Alt (lit (py ''True'')) (lit (py ''False'')), Eps)"

definition deprecate_pat :: pattern where
  "deprecate_pat = (assign_re ''_deprecate'', Alt (lit (py ''True'')) (lit (py ''False'')), Eps)"

definition max_resolution_pat :: pattern where
  "max_resolution_pat =
     (Seq (assign_re ''_maxResolution'') quote, rplus (In [Word, Space]), quote)"

definition region_pat :: pattern where
  "region_pat = (Seq (assign_re ''_region'') quote, rplus (In [Word, Space]), quote)"

section \<open>Paths and the file system\<close>

text \<open>
  An absolute path is the list of its components below the root. The file system is what
  the script observes of it: whether a path exists, whether it is a directory, the names
  in a directory in the order the system lists them (or the error raised), and the text
  that opening and reading a file as UTF-8 returns (or the message of the exception raised).
\<close>

type_synonym path = "pystr list"

definition parent :: "path \<Rightarrow> path" where
  "parent p = butlast p"

definition name :: "path \<Rightarrow> pystr" where
  "name p = (if p = [] then [] else last p)"

definition path_str :: "path \<Rightarrow> pystr" where
  "path_str p = (if p = [] then [47] else concat (map (\<lambda>c. 47 # c) p))"

record filesystem =
  fs_exists :: "path \<Rightarrow> bool"
  fs_is_dir :: "path \<Rightarrow> bool"
  fs_iterdir :: "path \<Rightarrow> pystr + pystr list"
  fs_read :: "path \<Rightarrow> pystr + pystr"

section \<open>extract_service_info\<close>

text \<open>
  The tuple \<open>(service_name, stream_type, drm, deprecate, max_resolution, region)\<close>. The
  function returns it together with the lines it prints. The body of the \<open>try\<close> raises
  only where the file is opened and read, before any field is assigned; the handler
  catches every exception, prints, and falls through to the \<open>return\<close>.
\<close>

type_synonym service_info = "pystr \<times> pystr \<times> bool \<times> bool \<times> pystr \<times> pystr"

definition extract_service_info :: "ucd \<Rightarrow> filesystem \<Rightarrow> path \<Rightarrow> service_info \<times> pystr list" where
  "extract_service_info U fs init_file =
     (let service_name = name (parent init_file) in
      case fs_read fs init_file of
        Inl e \<Rightarrow>
          ((service_name, py ''N/A'', False, False, py ''N/A'', py ''N/A''),
           [py ''Error reading '' @ path_str init_file @ py '': '' @ e])
      | Inr content \<Rightarrow>
          (let stream_type = (case re_search U stream_type_pat content of
                                Some g \<Rightarrow> g | None \<Rightarrow> py ''N/A'');
               drm = (case re_search U drm_pat content of
                        Some g \<Rightarrow> g = py ''True'' | None \<Rightarrow> False);
               deprecate = (case re_search U deprecate_pat content of
                              Some g \<Rightarrow> g = py ''True'' | None \<Rightarrow> False);
               max_resolution = (case re_search U max_resolution_pat content of
                                   Some g \<Rightarrow> g | None \<Rightarrow> py ''N/A'');
               region = (case re_search U region_pat content of
                           Some g \<Rightarrow> g | None \<Rightarrow> py ''N/A'')
           in ((service_name, stream_type, drm, deprecate, max_resolution, region), [])))"

section \<open>find_service_files\<close>

definition startswith :: "pystr \<Rightarrow> pystr \<Rightarrow> bool" where
  "startswith s prefix = (take (length prefix) s = prefix)"

definition services_dir :: "path \<Rightarrow> path" where
  "services_dir base_path = base_path @ [py ''StreamingCommunity'', py ''Api'', py ''Service'']"

text \<open>
  The result is the sorted list of paths, or the error that listing the directory raised,
  together with the lines printed. Paths compare component by component.
\<close>

definition find_service_files :: "filesystem \<Rightarrow> path \<Rightarrow> (pystr + path list) \<times> pystr list" where
  "find_service_files fs base_path =
     (let services_path = services_dir base_path in
      if \<not> fs_exists fs services_path
      then (Inr [], [py ''Services path not found: '' @ path_str services_path])
      else
        (case fs_iterdir fs services_path of
           Inl e \<Rightarrow> (Inl e, [])
         | Inr names \<Rightarrow>
             (Inr (sort [services_path @ [n, py ''__init__.py'']. n \<leftarrow> names,
                          fs_is_dir fs (services_path @ [n]) \<and> \<not> startswith n (py ''__''),
                          fs_exists fs (services_path @ [n, py ''__init__.py''])]),
              [])))"

section \<open>generate_markdown_table\<close>

text \<open>
  A kept record is \<open>(service_name, stream_type, drm, max_resolution, region)\<close>, a row of
  \<open>table_data\<close> is \<open>(display_name, stream_type, drm_icon, max_resolution, region)\<close>.
  \<open>sorted\<close> is stable, as \<open>sort_key\<close> is. The two icons are the single code points
  U+2705 and U+274C.
\<close>

type_synonym service = "pystr \<times> pystr \<times> bool \<times> pystr \<times> pystr"
type_synonym row = "pystr \<times> pystr \<times> pystr \<times> pystr \<times> pystr"
type_synonym widths = "nat \<times> nat \<times> nat \<times> nat \<times> nat"

definition sorted_services :: "ucd \<Rightarrow> service list \<Rightarrow> service list" where
  "sorted_services U services = sort_key (\<lambda>x. str_lower U (fst x)) services"

definition display_row :: "ucd \<Rightarrow> service \<Rightarrow> row" where
  "display_row U = (\<lambda>(service_name, stream_type, drm, max_resolution, region).
     (str_title U (str_replace 95 32 service_name), stream_type,
      (if drm then [9989] else [10060]), max_resolution, region))"

definition table_data :: "ucd \<Rightarrow> service list \<Rightarrow> row list" where
  "table_data U services = map (display_row U) (sorted_services U services)"

definition headers :: row where
  "headers = (py ''Site Name'', py ''Stream Type'', py ''DRM'', py ''Max Resolution'', py ''Region'')"

text \<open>The loop that widens the five maxima, starting from the header lengths\<close>

definition widen :: "row \<Rightarrow> widths \<Rightarrow> widths" where
  "widen = (\<lambda>(display_name, stream_type, drm_icon, max_resolution, region)
              (max_col1, max_col2, max_col3, max_col4, max_col5).
     (max max_col1 (length display_name), max max_col2 (length stream_type),
      max max_col3 (length drm_icon), max max_col4 (length max_resolution),
      max max_col5 (length region)))"

definition col_widths :: "row list \<Rightarrow> widths" where
  "col_widths rows =
     fold widen rows
       (case headers of (col1_header, col2_header, col3_header, col4_header, col5_header) \<Rightarrow>
          (length col1_header, length col2_header, length col3_header, length col4_header,
           length col5_header))"

text \<open>The f-string of the header row and of every data row\<close>

definition format_row :: "widths \<Rightarrow> row \<Rightarrow> pystr" where
  "format_row = (\<lambda>(max_col1, max_col2, max_col3, max_col4, max_col5) (c1, c2, c3, c4, c5).
     py ''| '' @ ljust max_col1 c1 @ py '' | '' @ ljust max_col2 c2 @ py '' | '' @
     ljust max_col3 c3 @ py '' | '' @ ljust max_col4 c4 @ py '' | '' @ ljust max_col5 c5 @
     py '' |'')"

definition separator :: "widths \<Rightarrow> pystr" where
  "separator = (\<lambda>(max_col1, max_col2, max_col3, max_col4, max_col5).
     py ''|'' @ replicate (max_col1 + 2) 45 @ py ''|'' @ replicate (max_col2 + 2) 45 @ py ''|'' @
     replicate (max_col3 + 2) 45 @ py ''|'' @ replicate (max_col4 + 2) 45 @ py ''|'' @
     replicate (max_col5 + 2) 45 @ py ''|'')"

text \<open>
  \<open>now\<close> is the text of \<open>datetime.now().strftime('%Y-%m-%d %H:%M:%S')\<close>, the only input
  of the renderer besides the records.
\<close>

definition table_lines :: "ucd \<Rightarrow> pystr \<Rightarrow> service list \<Rightarrow> pystr list" where
  "table_lines U now services =
     (let rows = table_data U services; w = col_widths rows in
      [py ''# Services Overview'', []] @ [format_row w headers] @ [separator w] @
      map (format_row w) rows @
      [[], py ''---'', [], py ''*Last updated: '' @ now @ py ''*'', []])"

definition generate_markdown_table :: "ucd \<Rightarrow> pystr \<Rightarrow> service list \<Rightarrow> pystr" where
  "generate_markdown_table U now services = str_join [10] (table_lines U now services)"

section \<open>main\<close>

text \<open>
  The loop over \<open>init_files\<close> carries \<open>services\<close>, \<open>deprecated_count\<close> and the lines
  printed so far.
\<close>

fun collect :: "ucd \<Rightarrow> filesystem \<Rightarrow> path list \<Rightarrow> service list \<times> nat \<times> pystr list
    \<Rightarrow> service list \<times> nat \<times> pystr list" where
  "collect U fs [] st = st"
| "collect U fs (init_file # rest) (services, deprecated_count, out) =
     (case extract_service_info U fs init_file of
        ((service_name, stream_type, drm, deprecate, max_resolution, region), printed) \<Rightarrow>
          if \<not> deprecate
          then collect U fs rest
                 (services @ [(service_name, stream_type, drm, max_resolution, region)],
                  deprecated_count, out @ printed)
          else collect U fs rest (services, deprecated_count + 1, out @ printed))"

text \<open>
  A run of \<open>main\<close>: the lines printed, the file written (its path and text; \<open>None\<close> when
  the run writes nothing) and the exception that left \<open>main\<close> uncaught, if any.
  \<open>script_file\<close> is \<open>__file__\<close>.
\<close>

record run =
  stdout :: "pystr list"
  written :: "(path \<times> pystr) option"
  raised :: "pystr option"

definition main :: "ucd \<Rightarrow> filesystem \<Rightarrow> path \<Rightarrow> pystr \<Rightarrow> run" where
  "main U fs script_file now =
     (let script_dir = parent script_file;
          base_path = parent (parent (parent script_dir));
          out1 = [py ''Base path: '' @ path_str base_path]
      in case find_service_files fs base_path of
           (Inl e, out2) \<Rightarrow> \<lparr>stdout = out1 @ out2, written = None, raised = Some e\<rparr>
         | (Inr init_files, out2) \<Rightarrow>
             (let out3 = [py ''Found '' @ str_nat (length init_files) @ py '' service files''] in
              if init_files = []
              then \<lparr>stdout = out1 @ out2 @ out3 @ [py ''No service files found!''],
                    written = None, raised = None\<rparr>
              else
                (case collect U fs init_files ([], 0, []) of
                   (services, deprecated_count, out4) \<Rightarrow>
                     \<lparr>stdout = out1 @ out2 @ out3 @ out4 @
                                [py ''Deprecated services: '' @ str_nat deprecated_count],
                      written = Some (base_path @ [py ''.github'', py ''doc'', py ''site.md''],
                                      generate_markdown_table U now services),
                      raised = None\<rparr>)))"

section \<open>Reading the tuples\<close>

text \<open>
  The loop of \<open>main\<close> tests the fourth component of an extracted tuple and keeps the other
  five.
\<close>

definition deprecated :: "service_info \<Rightarrow> bool" where
  "deprecated = (\<lambda>(service_name, stream_type, drm, deprecate, max_resolution, region). deprecate)"

definition keep :: "service_info \<Rightarrow> service" where
  "keep = (\<lambda>(service_name, stream_type, drm, deprecate, max_resolution, region).
     (service_name, stream_type, drm, max_resolution, region))"

text \<open>
  What the claims say of a declaration text, stated without the matcher. An assignment is
  the attribute name, whitespace, the equals sign, whitespace, and a right-hand side. A
  quoted value \<open>v\<close> is assigned at the start of \<open>s\<close> when the right-hand side is a quote,
  the non-empty text \<open>v\<close> of characters of the set \<open>cs\<close>, and a quote; a boolean literal
  when the right-hand side starts with \<open>True\<close> or \<open>False\<close>. \<open>first_match\<close> holds of the
  value at the leftmost position of the text where there is one, \<open>no_match\<close> when no
  position has one. \<open>matches\<close> is the same for an arbitrary pattern: some way of matching
  it captures \<open>g\<close>.
\<close>

definition spaces :: "ucd \<Rightarrow> pystr \<Rightarrow> bool" where
  "spaces U w = (\<forall>c \<in> set w. is_space U c)"

definition assignment :: "ucd \<Rightarrow> string \<Rightarrow> pystr \<Rightarrow> pystr \<Rightarrow> bool" where
  "assignment U attr s rhs =
     (\<exists>ws1 ws2. s = py attr @ ws1 @ [61] @ ws2 @ rhs \<and> spaces U ws1 \<and> spaces U ws2)"

definition quoted_at :: "ucd \<Rightarrow> string \<Rightarrow> cclass list \<Rightarrow> pystr \<Rightarrow> pystr \<Rightarrow> bool" where
  "quoted_at U attr cs s v =
     (v \<noteq> [] \<and> (\<forall>c \<in> set v. in_set U cs c) \<and>
      (\<exists>q1 q2 rest. q1 \<in> {34, 39} \<and> q2 \<in> {34, 39} \<and>
         assignment U attr s (q1 # v @ q2 # rest)))"

definition bool_at :: "ucd \<Rightarrow> string \<Rightarrow> pystr \<Rightarrow> pystr \<Rightarrow> bool" where
  "bool_at U attr s tok =
     ((tok = py ''True'' \<or> tok = py ''False'') \<and> (\<exists>rest. assignment U attr s (tok @ rest)))"

definition first_match :: "(pystr \<Rightarrow> pystr \<Rightarrow> bool) \<Rightarrow> pystr \<Rightarrow> pystr \<Rightarrow> bool" where
  "first_match M s v =
     (\<exists>i\<le>length s. M (drop i s) v \<and> (\<forall>j<i. \<forall>v'. \<not> M (drop j s) v'))"

definition no_match :: "(pystr \<Rightarrow> pystr \<Rightarrow> bool) \<Rightarrow> pystr \<Rightarrow> bool" where
  "no_match M s = (\<forall>i\<le>length s. \<forall>v. \<not> M (drop i s) v)"

definition matches :: "ucd \<Rightarrow> pattern \<Rightarrow> pystr \<Rightarrow> pystr \<Rightarrow> bool" where
  "matches U p s g =
     (case p of (pre, grp, post) \<Rightarrow>
        (\<exists>t u. t \<in> set (ms U pre s) \<and> u \<in> set (ms U grp t) \<and> ms U post u \<noteq> [] \<and>
               g = take (length t - length u) t))"

text \<open>The fields of an extracted tuple\<close>

definition stream_type_of :: "service_info \<Rightarrow> pystr" where
  "stream_type_of = (\<lambda>(service_name, stream_type, drm, deprecate, max_resolution, region). stream_type)"

definition drm_of :: "service_info \<Rightarrow> bool" where
  "drm_of = (\<lambda>(service_name, stream_type, drm, deprecate, max_resolution, region). drm)"

definition max_resolution_of :: "service_info \<Rightarrow> pystr" where
  "max_resolution_of = (\<lambda>(service_name, stream_type, drm, deprecate, max_resolution, region). max_resolution)"

definition region_of :: "service_info \<Rightarrow> pystr" where
  "region_of = (\<lambda>(service_name, stream_type, drm, deprecate, max_resolution, region). region)"

text \<open>A Unicode database and file systems for the examples\<close>

definition ascii_only :: ucd where
  "ascii_only = \<lparr>uni_alnum = (\<lambda>c. False), uni_space = (\<lambda>c. False),
     uni_lower = (\<lambda>s. s), uni_title = (\<lambda>s. s)\<rparr>"

definition no_services :: filesystem where
  "no_services = \<lparr>fs_exists = (\<lambda>p. False), fs_is_dir = (\<lambda>p. False),
     fs_iterdir = (\<lambda>p. Inl (py ''No such file or directory'')),
     fs_read = (\<lambda>p. Inl (py ''No such file or directory''))\<rparr>"

text \<open>
  The data rows of the rendered lines are what lies between the four leading lines (title,
  blank, header row, separator) and the five trailing ones. \<open>cells\<close> and \<open>widths_list\<close>
  read a row and the five widths column by column.
\<close>

definition data_rows :: "pystr list \<Rightarrow> pystr list" where
  "data_rows ls = take (length ls - 9) (drop 4 ls)"

definition cells :: "row \<Rightarrow> pystr list" where
  "cells = (\<lambda>(c1, c2, c3, c4, c5). [c1, c2, c3, c4, c5])"

definition widths_list :: "widths \<Rightarrow> nat list" where
  "widths_list = (\<lambda>(max_col1, max_col2, max_col3, max_col4, max_col5).
     [max_col1, max_col2, max_col3, max_col4, max_col5])"

text \<open>The rendered document up to the timestamp line\<close>

definition table_body :: "ucd \<Rightarrow> service list \<Rightarrow> pystr" where
  "table_body U services =
     str_join [10] (butlast (butlast (table_lines U [] services))) @ [10]"

text \<open>
  The scenario of the specification: two service directories, \<open>amazon_prime\<close> and the
  deprecated \<open>old_service\<close>; the same file system with the directory listed in the other
  order; the path of the script.
\<close>

definition two_dirs :: filesystem where
  "two_dirs = \<lparr>fs_exists = (\<lambda>p. True), fs_is_dir = (\<lambda>p. True),
     fs_iterdir = (\<lambda>p. Inr [py ''old_service'', py ''amazon_prime'']),
     fs_read = (\<lambda>p. if name (parent p) = py ''old_service'' then Inr (py ''_deprecate = True'')
                      else Inr (py ''_stream_type = '' @ [34] @ py ''HLS'' @ [34, 10] @
                                py ''_drm = True'' @ [10] @ py ''_deprecate = False'' @ [10] @
                                py ''_maxResolution = '' @ [34] @ py ''1080p'' @ [34, 10] @
                                py ''_region = '' @ [34] @ py ''IT'' @ [34, 10]))\<rparr>"

definition two_dirs_listed_backwards :: filesystem where
  "two_dirs_listed_backwards =
     two_dirs\<lparr>fs_iterdir := (\<lambda>p. Inr [py ''amazon_prime'', py ''old_service''])\<rparr>"

definition script :: path where
  "script = [py ''work'', py ''repo'', py ''.github'', py ''script'', py ''generate_services_table.py'']"

definition one_service :: "service list" where
  "one_service = [(py ''amazon_prime'', py ''HLS'', True, py ''1080p'', py ''IT'')]"

text \<open>Three names that differ in the case of their first letter\<close>

definition mixed_case :: "service list" where
  "mixed_case = [(py ''Zeta'', py ''HLS'', False, py ''720p'', py ''IT''),
                 (py ''alpha'', py ''HLS'', False, py ''720p'', py ''IT''),
                 (py ''Beta'', py ''HLS'', True, py ''720p'', py ''IT'')]"

text \<open>A file system in which every file reads as the given text, and two texts\<close>

definition file_with :: "pystr \<Rightarrow> filesystem" where
  "file_with content = \<lparr>fs_exists = (\<lambda>p. True), fs_is_dir = (\<lambda>p. True),
     fs_iterdir = (\<lambda>p. Inr []), fs_read = (\<lambda>p. Inr content)\<rparr>"

definition region_only :: pystr where
  "region_only = py ''_region = '' @ [34] @ py '' IT '' @ [34]"

definition drm_twice :: pystr where
  "drm_twice = py ''_drm=False'' @ [10] @ py ''_drm = True''"

section \<open>The loop of main\<close>

lemma collect_acc:
  "collect U fs files (services, n, out) =
     (services @ map keep (filter (\<lambda>i. \<not> deprecated i)
                    (map (\<lambda>f. fst (extract_service_info U fs f)) files)),
      n + length (filter deprecated (map (\<lambda>f. fst (extract_service_info U fs f)) files)),
      out @ concat (map (\<lambda>f. snd (extract_service_info U fs f)) files))"
proof (induction files arbitrary: services n out)
  case Nil
  show ?case by simp
next
  case (Cons f files)
  obtain a b c d e g pr where ex: "extract_service_info U fs f = ((a, b, c, d, e, g), pr)"
    by (metis prod_cases3 surj_pair)
  show ?case
    by (cases d) (simp_all add: ex Cons.IH keep_def deprecated_def)
qed

section \<open>The renderer\<close>

lemma data_rows_table_lines:
  "data_rows (table_lines U now services) =
     map (format_row (col_widths (table_data U services))) (table_data U services)"
  by (simp add: data_rows_def table_lines_def Let_def)

lemma header_row_table_lines:
  "table_lines U now services ! 2 = format_row (col_widths (table_data U services)) headers"
  by (simp add: table_lines_def Let_def)

lemma fold_max_Max:
  "fold (\<lambda>r m. max m (f r)) rows (m0::nat) = Max (insert m0 (f ` set rows))"
proof (induction rows arbitrary: m0)
  case Nil
  show ?case by simp
next
  case (Cons r rows)
  have "Max (insert (max m0 (f r)) (f ` set rows)) = Max (insert m0 (insert (f r) (f ` set rows)))"
    by (cases "set rows = {}") (simp_all add: max.assoc)
  then show ?case by (simp add: Cons.IH del: Max_insert)
qed

lemma cells_simp: "cells (c1, c2, c3, c4, c5) = [c1, c2, c3, c4, c5]"
  by (simp add: cells_def)

lemma widths_list_simp: "widths_list (a, b, c, d, e) = [a, b, c, d, e]"
  by (simp add: widths_list_def)

lemma widen_simp:
  "widen (c1, c2, c3, c4, c5) (a, b, c, d, e) =
     (max a (length c1), max b (length c2), max c (length c3), max d (length c4),
      max e (length c5))"
  by (simp add: widen_def)

lemma fold_widen:
  "widths_list (fold widen rows acc) =
     map (\<lambda>k. fold (\<lambda>r m. max m (length (cells r ! k))) rows (widths_list acc ! k)) [0, 1, 2, 3, 4]"
proof (induction rows arbitrary: acc)
  case Nil
  show ?case by (cases acc) (simp add: widths_list_simp)
next
  case (Cons r rows)
  obtain a b c d e where acc: "acc = (a, b, c, d, e)" by (metis prod_cases5)
  obtain c1 c2 c3 c4 c5 where r: "r = (c1, c2, c3, c4, c5)" by (metis prod_cases5)
  show ?case
    by (simp add: Cons.IH acc r widen_simp widths_list_simp cells_simp)
qed

lemma widths_list_col_widths:
  assumes "k < 5"
  shows "widths_list (col_widths rows) ! k =
     Max (insert (length (cells headers ! k)) ((\<lambda>r. length (cells r ! k)) ` set rows))"
proof -
  have k: "k = 0 \<or> k = 1 \<or> k = 2 \<or> k = 3 \<or> k = 4" using assms by arith
  have "widths_list (col_widths rows) ! k =
      fold (\<lambda>r m. max m (length (cells r ! k))) rows (length (cells headers ! k))"
    unfolding col_widths_def fold_widen using k
    by (auto simp: headers_def widths_list_simp cells_simp)
  then show ?thesis by (simp add: fold_max_Max)
qed

lemma format_row_cells:
  "format_row w r =
     py ''| '' @ str_join (py '' | '') (map2 ljust (widths_list w) (cells r)) @ py '' |''"
proof -
  obtain a b c d e where w: "w = (a, b, c, d, e)" by (metis prod_cases5)
  obtain c1 c2 c3 c4 c5 where r: "r = (c1, c2, c3, c4, c5)" by (metis prod_cases5)
  show ?thesis by (simp add: w r format_row_def widths_list_simp cells_simp)
qed

lemma length_ljust: "length (ljust w s) = max w (length s)"
  by (simp add: ljust_def)

lemma cell_fits:
  assumes "k < 5" "r \<in> set (headers # rows)"
  shows "length (cells r ! k) \<le> widths_list (col_widths rows) ! k"
  unfolding widths_list_col_widths [OF assms(1)]
  using assms(2) by (auto intro!: Max_ge)





lemma str_join_Cons: "str_join sep (x # xs) = x @ concat (map (\<lambda>y. sep @ y) xs)"
  by (induction xs arbitrary: x) simp_all

lemma str_join_append:
  "xs \<noteq> [] \<Longrightarrow> str_join sep (xs @ ys) = str_join sep xs @ concat (map (\<lambda>y. sep @ y) ys)"
  by (cases xs) (simp_all add: str_join_Cons)

lemma generate_markdown_table_body:
  "generate_markdown_table U now services =
     table_body U services @ py ''*Last updated: '' @ now @ py ''*'' @ [10]"
proof -
  define pre where "pre = [py ''# Services Overview'', []] @
      [format_row (col_widths (table_data U services)) headers] @
      [separator (col_widths (table_data U services))] @
      map (format_row (col_widths (table_data U services))) (table_data U services) @
      [[], py ''---'', []]"
  have l: "table_lines U t services = pre @ [py ''*Last updated: '' @ t @ py ''*'', []]" for t
    by (simp add: table_lines_def Let_def pre_def)
  have ne: "pre \<noteq> []" by (simp add: pre_def)
  show ?thesis
    unfolding generate_markdown_table_def table_body_def l
    by (simp add: str_join_append [OF ne] butlast_append)
qed

section \<open>Discovery and the run\<close>

lemma candidates_map_filter:
  "[f n. n \<leftarrow> names, P n, Q n] = map f (filter (\<lambda>n. P n \<and> Q n) names)"
  by (induction names) simp_all

lemma sort_mset_cong:
  fixes xs ys :: "('a::linorder) list"
  assumes "mset xs = mset ys"
  shows "sort xs = sort ys"
  by (rule properties_for_sort) (simp_all add: assms)

lemma find_service_files_listing_order:
  assumes "fs_exists fs' = fs_exists fs" "fs_is_dir fs' = fs_is_dir fs"
    and "rel_sum (=) (\<lambda>a b. mset a = mset b) (fs_iterdir fs (services_dir base_path))
           (fs_iterdir fs' (services_dir base_path))"
  shows "find_service_files fs' base_path = find_service_files fs base_path"
proof (cases "fs_iterdir fs (services_dir base_path)")
  case (Inl e)
  then have "fs_iterdir fs' (services_dir base_path) = Inl e"
    using assms(3) by (cases "fs_iterdir fs' (services_dir base_path)") simp_all
  then show ?thesis using Inl assms(1) by (simp add: find_service_files_def Let_def)
next
  case (Inr names)
  then obtain names' where n': "fs_iterdir fs' (services_dir base_path) = Inr names'"
    and m: "mset names = mset names'"
    using assms(3) by (cases "fs_iterdir fs' (services_dir base_path)") simp_all
  show ?thesis
    unfolding find_service_files_def Let_def candidates_map_filter Inr n' assms(1) assms(2)
    by (simp add: m sort_mset_cong)
qed

lemma extract_depends_on_read:
  assumes "fs_read fs' = fs_read fs"
  shows "extract_service_info U fs' f = extract_service_info U fs f"
  by (simp add: extract_service_info_def assms)

lemma collect_depends_on_read:
  assumes "fs_read fs' = fs_read fs"
  shows "collect U fs' files st = collect U fs files st"
  by (cases st) (simp add: collect_acc extract_depends_on_read [OF assms])

lemma main_found:
  assumes "find_service_files fs (parent (parent (parent (parent script_file)))) = (Inr init_files, out2)"
    and "init_files \<noteq> []"
  shows "main U fs script_file now =
    \<lparr>stdout = [py ''Base path: '' @ path_str (parent (parent (parent (parent script_file))))] @ out2 @
              [py ''Found '' @ str_nat (length init_files) @ py '' service files''] @
              concat (map (\<lambda>f. snd (extract_service_info U fs f)) init_files) @
              [py ''Deprecated services: '' @
               str_nat (length (filter deprecated (map (\<lambda>f. fst (extract_service_info U fs f)) init_files)))],
     written = Some (parent (parent (parent (parent script_file))) @ [py ''.github'', py ''doc'', py ''site.md''],
                generate_markdown_table U now
                  (map keep (filter (\<lambda>i. \<not> deprecated i)
                     (map (\<lambda>f. fst (extract_service_info U fs f)) init_files)))),
     raised = None\<rparr>"
  using assms by (simp add: main_def Let_def collect_acc)

lemma two_dirs_found:
  "find_service_files two_dirs (parent (parent (parent (parent script)))) =
     (Inr [[py ''work'', py ''StreamingCommunity'', py ''Api'', py ''Service'', py ''amazon_prime'', py ''__init__.py''],
           [py ''work'', py ''StreamingCommunity'', py ''Api'', py ''Service'', py ''old_service'', py ''__init__.py'']], [])"
  by code_simp

lemma two_dirs_stdout:
  "stdout (main ascii_only two_dirs script (py ''2025-01-01 00:00:00'')) =
     [py ''Base path: /work'', py ''Found 2 service files'', py ''Deprecated services: 1'']"
  by code_simp

lemma two_dirs_written:
  "written (main ascii_only two_dirs script (py ''T'')) =
     Some ([py ''work'', py ''.github'', py ''doc'', py ''site.md''],
       py ''# Services Overview'' @ [10, 10] @
       py ''| Site Name    | Stream Type | DRM | Max Resolution | Region |'' @ [10] @
       py ''|--------------|-------------|-----|----------------|--------|'' @ [10] @
       py ''| Amazon Prime | HLS         | '' @ [9989] @ py ''   | 1080p          | IT     |'' @ [10, 10] @
       py ''---'' @ [10, 10] @ py ''*Last updated: T*'' @ [10])"
  by code_simp

lemma str_lower_ascii: "is_ascii s \<Longrightarrow> str_lower U s = map ascii_lower s"
  by (simp add: str_lower_def)

lemma is_ascii_upper: "is_ascii s \<Longrightarrow> is_ascii (map ascii_upper s)"
  by (auto simp: is_ascii_def list_all_iff ascii_upper_def)

lemma ascii_lower_upper: "ascii_lower (ascii_upper c) = ascii_lower c"
  by (auto simp: ascii_lower_def ascii_upper_def)

lemma str_lower_ignores_case:
  assumes "is_ascii s"
  shows "str_lower U (map ascii_upper s) = str_lower U s"
  by (simp add: str_lower_ascii assms is_ascii_upper ascii_lower_upper)

lemma sorted_services_ascii:
  assumes "\<forall>x \<in> set services. is_ascii (fst x)"
  shows "sorted (map (\<lambda>x. map ascii_lower (fst x)) (sorted_services U services))"
proof -
  have eq: "map (\<lambda>x. map ascii_lower (fst x)) (sorted_services U services) =
        map (\<lambda>x. str_lower U (fst x)) (sorted_services U services)"
    using assms by (intro map_cong refl) (simp add: sorted_services_def str_lower_ascii)
  have s: "sorted (map (\<lambda>x. str_lower U (fst x)) (sorted_services U services))"
    by (simp add: sorted_services_def)
  show ?thesis unfolding eq by (rule s)
qed

section \<open>Claims about the rendered table\<close>

text \<open>
  C1: for every list of kept records, the width of each of the five columns is the maximum
  of the length of its header and of the lengths of the values of all rows in that column;
  the third line is the header row and the data rows are the rows of \<open>table_data\<close>, all
  formatted with these widths; and in the header row and in every data row each cell is
  the value followed by spaces only, of length exactly the column's width (so no value is
  truncated).
\<close>

theorem column_widths:
  "(\<forall>k<5. widths_list (col_widths (table_data U services)) ! k =
      Max (insert (length (cells headers ! k))
             ((\<lambda>r. length (cells r ! k)) ` set (table_data U services)))) \<and>
   table_lines U now services ! 2 = format_row (col_widths (table_data U services)) headers \<and>
   data_rows (table_lines U now services) =
     map (format_row (col_widths (table_data U services))) (table_data U services) \<and>
   (\<forall>r \<in> set (headers # table_data U services).
      format_row (col_widths (table_data U services)) r =
        py ''| '' @
        str_join (py '' | '')
          (map2 ljust (widths_list (col_widths (table_data U services))) (cells r)) @
        py '' |'' \<and>
      (\<forall>k<5. length (ljust (widths_list (col_widths (table_data U services)) ! k) (cells r ! k)) =
                 widths_list (col_widths (table_data U services)) ! k \<and>
              ljust (widths_list (col_widths (table_data U services)) ! k) (cells r ! k) =
                 cells r ! k @
                 replicate (widths_list (col_widths (table_data U services)) ! k -
                            length (cells r ! k)) 32))"
proof (intro conjI allI impI ballI)
  fix k :: nat assume "k < 5"
  then show "widths_list (col_widths (table_data U services)) ! k =
      Max (insert (length (cells headers ! k))
             ((\<lambda>r. length (cells r ! k)) ` set (table_data U services)))"
    by (rule widths_list_col_widths)
next
  show "table_lines U now services ! 2 = format_row (col_widths (table_data U services)) headers"
    by (rule header_row_table_lines)
next
  show "data_rows (table_lines U now services) =
     map (format_row (col_widths (table_data U services))) (table_data U services)"
    by (rule data_rows_table_lines)
next
  fix r
  show "format_row (col_widths (table_data U services)) r =
        py ''| '' @
        str_join (py '' | '')
          (map2 ljust (widths_list (col_widths (table_data U services))) (cells r)) @
        py '' |''"
    by (rule format_row_cells)
next
  fix r and k :: nat
  assume "r \<in> set (headers # table_data U services)" "k < 5"
  then have "length (cells r ! k) \<le> widths_list (col_widths (table_data U services)) ! k"
    by (intro cell_fits)
  then show "length (ljust (widths_list (col_widths (table_data U services)) ! k) (cells r ! k)) =
                 widths_list (col_widths (table_data U services)) ! k"
    by (simp add: length_ljust)
next
  fix r and k :: nat
  show "ljust (widths_list (col_widths (table_data U services)) ! k) (cells r ! k) =
                 cells r ! k @
                 replicate (widths_list (col_widths (table_data U services)) ! k -
                            length (cells r ! k)) 32"
    by (simp add: ljust_def)
qed

theorem column_widths_witness:
  "(0::nat) < 5 \<and>
   (py ''Amazon Prime'', py ''HLS'', [9989], py ''1080p'', py ''IT'') \<in>
     set (headers # table_data ascii_only one_service) \<and>
   widths_list (col_widths (table_data ascii_only one_service)) = [12, 11, 3, 14, 6] \<and>
   widths_list (col_widths (table_data ascii_only one_service)) ! 0 =
     Max (insert (length (cells headers ! 0))
            ((\<lambda>r. length (cells r ! 0)) ` set (table_data ascii_only one_service))) \<and>
   length (ljust (widths_list (col_widths (table_data ascii_only one_service)) ! 0)
             (cells (py ''Amazon Prime'', py ''HLS'', [9989], py ''1080p'', py ''IT'') ! 0)) = 12 \<and>
   data_rows (table_lines ascii_only (py ''2025-01-01 00:00:00'') one_service) =
     [py ''| Amazon Prime | HLS         | '' @ [9989] @ py ''   | 1080p          | IT     |'']"
proof -
  have rows: "table_data ascii_only one_service =
      [(py ''Amazon Prime'', py ''HLS'', [9989], py ''1080p'', py ''IT'')]"
    by code_simp
  have wd: "col_widths [(py ''Amazon Prime'', py ''HLS'', [9989], py ''1080p'', py ''IT'')] =
      (12, 11, 3, 14, 6)"
    by code_simp
  have fr: "format_row (12, 11, 3, 14, 6) (py ''Amazon Prime'', py ''HLS'', [9989], py ''1080p'', py ''IT'') =
      py ''| Amazon Prime | HLS         | '' @ [9989] @ py ''   | 1080p          | IT     |''"
    by code_simp
  note T = column_widths [of ascii_only one_service "py ''2025-01-01 00:00:00''"]
  have mem: "(py ''Amazon Prime'', py ''HLS'', [9989], py ''1080p'', py ''IT'') \<in>
     set (headers # table_data ascii_only one_service)"
    by (simp add: rows)
  have wl: "widths_list (col_widths (table_data ascii_only one_service)) = [12, 11, 3, 14, 6]"
    by (simp add: rows wd widths_list_simp)
  have mx: "widths_list (col_widths (table_data ascii_only one_service)) ! 0 =
     Max (insert (length (cells headers ! 0))
            ((\<lambda>r. length (cells r ! 0)) ` set (table_data ascii_only one_service)))"
    using T [THEN conjunct1, rule_format, of 0] by simp
  have "length (ljust (widths_list (col_widths (table_data ascii_only one_service)) ! 0)
             (cells (py ''Amazon Prime'', py ''HLS'', [9989], py ''1080p'', py ''IT'') ! 0)) =
        widths_list (col_widths (table_data ascii_only one_service)) ! 0"
    using T [THEN conjunct2, THEN conjunct2, THEN conjunct2, THEN bspec, OF mem,
             THEN conjunct2, THEN spec, of 0, THEN mp, THEN conjunct1]
    by simp
  then have len: "length (ljust (widths_list (col_widths (table_data ascii_only one_service)) ! 0)
             (cells (py ''Amazon Prime'', py ''HLS'', [9989], py ''1080p'', py ''IT'') ! 0)) = 12"
    by (simp add: wl)
  have "data_rows (table_lines ascii_only (py ''2025-01-01 00:00:00'') one_service) =
     map (format_row (col_widths (table_data ascii_only one_service)))
       (table_data ascii_only one_service)"
    using T [THEN conjunct2, THEN conjunct2, THEN conjunct1] .
  then have dr: "data_rows (table_lines ascii_only (py ''2025-01-01 00:00:00'') one_service) =
     [py ''| Amazon Prime | HLS         | '' @ [9989] @ py ''   | 1080p          | IT     |'']"
    by (simp add: rows wd fr)
  show ?thesis
    using mem wl mx len dr by simp
qed

text \<open>
  C2: for every list of kept records, the data rows are the records in ascending order of
  the lower-cased service name (each record once, records with equal keys in their input
  order). Lower-casing an ASCII name maps \<open>A\<close> to \<open>Z\<close> onto \<open>a\<close> to \<open>z\<close> and leaves
  every other character, so a name and its upper-cased form have the same key and the order
  ignores case: \<open>Zeta\<close>, \<open>alpha\<close>, \<open>Beta\<close> are rendered as alpha, Beta, Zeta, which is
  not the order of the names as written. Nor is it the order of the display labels: the
  names \<open>a_b\<close> and \<open>a0\<close> are rendered as "A0" before "A B", although "A B" is the
  smaller label.
\<close>

theorem rows_sorted_by_lowercased_name:
  "data_rows (table_lines U now services) =
     map (\<lambda>x. format_row (col_widths (table_data U services)) (display_row U x))
       (sorted_services U services) \<and>
   sorted (map (\<lambda>x. str_lower U (fst x)) (sorted_services U services)) \<and>
   mset (sorted_services U services) = mset services \<and>
   (\<forall>key. filter (\<lambda>x. str_lower U (fst x) = key) (sorted_services U services) =
          filter (\<lambda>x. str_lower U (fst x) = key) services) \<and>
   ((\<forall>x \<in> set services. is_ascii (fst x)) \<longrightarrow>
      sorted (map (\<lambda>x. map (\<lambda>c. if 65 \<le> c \<and> c \<le> 90 then c + 32 else c) (fst x))
                (sorted_services U services))) \<and>
   (\<forall>s. is_ascii s \<longrightarrow>
      str_lower U s = map (\<lambda>c. if 65 \<le> c \<and> c \<le> 90 then c + 32 else c) s \<and>
      str_lower U (map (\<lambda>c. if 97 \<le> c \<and> c \<le> 122 then c - 32 else c) s) = str_lower U s) \<and>
   map fst (sorted_services U
              [(py ''Zeta'', st, d, m, r), (py ''alpha'', st', d', m', r'),
               (py ''Beta'', st'', d'', m'', r'')]) =
     [py ''alpha'', py ''Beta'', py ''Zeta''] \<and>
   \<not> sorted [py ''alpha'', py ''Beta'', py ''Zeta''] \<and>
   map fst (table_data U [(py ''a_b'', st, d, m, r), (py ''a0'', st', d', m', r')]) =
     [py ''A0'', py ''A B''] \<and>
   \<not> sorted [py ''A0'', py ''A B'']"
proof (intro conjI allI impI)
  have lo: "ascii_lower = (\<lambda>c. if 65 \<le> c \<and> c \<le> 90 then c + 32 else c)"
    by (intro ext) (simp add: ascii_lower_def)
  have up: "ascii_upper = (\<lambda>c. if 97 \<le> c \<and> c \<le> 122 then c - 32 else c)"
    by (intro ext) (simp add: ascii_upper_def)
  show "data_rows (table_lines U now services) =
     map (\<lambda>x. format_row (col_widths (table_data U services)) (display_row U x))
       (sorted_services U services)"
    by (simp add: data_rows_table_lines table_data_def)
  show "sorted (map (\<lambda>x. str_lower U (fst x)) (sorted_services U services))"
    by (simp add: sorted_services_def)
  show "mset (sorted_services U services) = mset services"
    by (simp add: sorted_services_def)
  show "filter (\<lambda>x. str_lower U (fst x) = key) (sorted_services U services) =
          filter (\<lambda>x. str_lower U (fst x) = key) services" for key
    by (simp add: sorted_services_def sort_key_stable)
  show "sorted (map (\<lambda>x. map (\<lambda>c. if 65 \<le> c \<and> c \<le> 90 then c + 32 else c) (fst x))
                (sorted_services U services))"
    if "\<forall>x \<in> set services. is_ascii (fst x)"
    using sorted_services_ascii [OF that, of U] unfolding lo .
  show "str_lower U s = map (\<lambda>c. if 65 \<le> c \<and> c \<le> 90 then c + 32 else c) s"
    if "is_ascii s" for s
    using str_lower_ascii [OF that, of U] unfolding lo .
  show "str_lower U (map (\<lambda>c. if 97 \<le> c \<and> c \<le> 122 then c - 32 else c) s) = str_lower U s"
    if "is_ascii s" for s
    using str_lower_ignores_case [OF that, of U] unfolding up .
  show "map fst (sorted_services U
              [(py ''Zeta'', st, d, m, r), (py ''alpha'', st', d', m', r'),
               (py ''Beta'', st'', d'', m'', r'')]) =
     [py ''alpha'', py ''Beta'', py ''Zeta'']"
    by code_simp
  show "\<not> sorted [py ''alpha'', py ''Beta'', py ''Zeta'']"
    by code_simp
  show "map fst (table_data U [(py ''a_b'', st, d, m, r), (py ''a0'', st', d', m', r')]) =
     [py ''A0'', py ''A B'']"
    by code_simp
  show "\<not> sorted [py ''A0'', py ''A B'']"
    by code_simp
qed

theorem rows_sorted_by_lowercased_name_witness:
  "map fst mixed_case = [py ''Zeta'', py ''alpha'', py ''Beta''] \<and>
   is_ascii (py ''Zeta'') \<and> is_ascii (py ''alpha'') \<and> is_ascii (py ''Beta'') \<and>
   is_ascii (py ''beta'') \<and>
   sorted (map (\<lambda>x. map (\<lambda>c. if 65 \<le> c \<and> c \<le> 90 then c + 32 else c) (fst x))
             (sorted_services ascii_only mixed_case)) \<and>
   map fst (sorted_services ascii_only mixed_case) = [py ''alpha'', py ''Beta'', py ''Zeta''] \<and>
   str_lower ascii_only (py ''Beta'') = py ''beta'' \<and>
   str_lower ascii_only (py ''BETA'') = str_lower ascii_only (py ''beta'')"
proof -
  have a: "\<forall>x \<in> set mixed_case. is_ascii (fst x)"
    by (simp add: mixed_case_def is_ascii_def py_def)
  have b: "is_ascii (py ''beta'')" "is_ascii (py ''Beta'')"
    by (simp_all add: is_ascii_def py_def)
  note T = rows_sorted_by_lowercased_name
             [of ascii_only "py ''2025-01-01 00:00:00''" mixed_case
                 "py ''HLS''" False "py ''720p''" "py ''IT''"
                 "py ''HLS''" False "py ''720p''" "py ''IT''"
                 "py ''HLS''" True "py ''720p''" "py ''IT''"]
  have 1: "sorted (map (\<lambda>x. map (\<lambda>c. if 65 \<le> c \<and> c \<le> 90 then c + 32 else c) (fst x))
             (sorted_services ascii_only mixed_case))"
    using T a by blast
  have 2: "map fst (sorted_services ascii_only mixed_case) = [py ''alpha'', py ''Beta'', py ''Zeta'']"
    using T unfolding mixed_case_def by blast
  have "str_lower ascii_only (py ''Beta'') =
        map (\<lambda>c. if 65 \<le> c \<and> c \<le> 90 then c + 32 else c) (py ''Beta'')"
    using T b(2) by blast
  then have 3: "str_lower ascii_only (py ''Beta'') = py ''beta''"
    by (simp add: py_def)
  have "str_lower ascii_only (map (\<lambda>c. if 97 \<le> c \<and> c \<le> 122 then c - 32 else c) (py ''beta'')) =
        str_lower ascii_only (py ''beta'')"
    using T b(1) by blast
  then have 4: "str_lower ascii_only (py ''BETA'') = str_lower ascii_only (py ''beta'')"
    by (simp add: py_def)
  have c: "map fst mixed_case = [py ''Zeta'', py ''alpha'', py ''Beta'']"
    "is_ascii (py ''Zeta'')" "is_ascii (py ''alpha'')"
    by (simp_all add: mixed_case_def is_ascii_def py_def)
  show ?thesis using b c 1 2 3 4 by blast
qed



section \<open>Claims about the run\<close>

text \<open>
  C3: in a run that found declaration files, the table is rendered from exactly the
  extracted records whose deprecated flag is false: the data rows are, as a multiset, the
  formatted rows of these records, one row each, so that a record whose flag is true has no
  row; and the last line printed is "Deprecated services: " followed by the number of
  extracted records whose flag is true.
\<close>

theorem deprecated_filtered_and_counted:
  assumes "find_service_files fs (parent (parent (parent (parent script_file)))) = (Inr init_files, out2)"
    and "init_files \<noteq> []"
  shows "(\<exists>path. written (main U fs script_file now) =
            Some (path, generate_markdown_table U now
                    (map keep (filter (\<lambda>i. \<not> deprecated i)
                       (map (\<lambda>f. fst (extract_service_info U fs f)) init_files))))) \<and>
         mset (data_rows (table_lines U now
                 (map keep (filter (\<lambda>i. \<not> deprecated i)
                    (map (\<lambda>f. fst (extract_service_info U fs f)) init_files))))) =
           image_mset
             (\<lambda>x. format_row
                    (col_widths (table_data U
                       (map keep (filter (\<lambda>i. \<not> deprecated i)
                          (map (\<lambda>f. fst (extract_service_info U fs f)) init_files)))))
                    (display_row U x))
             (mset (map keep (filter (\<lambda>i. \<not> deprecated i)
                      (map (\<lambda>f. fst (extract_service_info U fs f)) init_files)))) \<and>
         last (stdout (main U fs script_file now)) =
           py ''Deprecated services: '' @
           str_nat (length (filter deprecated
                      (map (\<lambda>f. fst (extract_service_info U fs f)) init_files)))"
proof (intro conjI)
  show "\<exists>path. written (main U fs script_file now) =
            Some (path, generate_markdown_table U now
                    (map keep (filter (\<lambda>i. \<not> deprecated i)
                       (map (\<lambda>f. fst (extract_service_info U fs f)) init_files))))"
    by (simp add: main_found [OF assms])
  show "last (stdout (main U fs script_file now)) =
           py ''Deprecated services: '' @
           str_nat (length (filter deprecated
                      (map (\<lambda>f. fst (extract_service_info U fs f)) init_files)))"
    by (simp add: main_found [OF assms])
  show "mset (data_rows (table_lines U now
                 (map keep (filter (\<lambda>i. \<not> deprecated i)
                    (map (\<lambda>f. fst (extract_service_info U fs f)) init_files))))) =
           image_mset
             (\<lambda>x. format_row
                    (col_widths (table_data U
                       (map keep (filter (\<lambda>i. \<not> deprecated i)
                          (map (\<lambda>f. fst (extract_service_info U fs f)) init_files)))))
                    (display_row U x))
             (mset (map keep (filter (\<lambda>i. \<not> deprecated i)
                      (map (\<lambda>f. fst (extract_service_info U fs f)) init_files))))"
    unfolding data_rows_table_lines table_data_def sorted_services_def
    by (simp add: multiset.map_comp comp_def)
qed

theorem deprecated_filtered_and_counted_witness:
  "find_service_files two_dirs (parent (parent (parent (parent script)))) =
     (Inr [[py ''work'', py ''StreamingCommunity'', py ''Api'', py ''Service'', py ''amazon_prime'', py ''__init__.py''],
           [py ''work'', py ''StreamingCommunity'', py ''Api'', py ''Service'', py ''old_service'', py ''__init__.py'']], []) \<and>
   [[py ''work'', py ''StreamingCommunity'', py ''Api'', py ''Service'', py ''amazon_prime'', py ''__init__.py''],
    [py ''work'', py ''StreamingCommunity'', py ''Api'', py ''Service'', py ''old_service'', py ''__init__.py'']] \<noteq> [] \<and>
   last (stdout (main ascii_only two_dirs script (py ''2025-01-01 00:00:00''))) =
     py ''Deprecated services: 1'' \<and>
   (\<exists>path. written (main ascii_only two_dirs script (py ''2025-01-01 00:00:00'')) =
      Some (path, generate_markdown_table ascii_only (py ''2025-01-01 00:00:00'') one_service))"
proof -
  have infos: "map keep (filter (\<lambda>i. \<not> deprecated i)
      (map (\<lambda>f. fst (extract_service_info ascii_only two_dirs f))
         [[py ''work'', py ''StreamingCommunity'', py ''Api'', py ''Service'', py ''amazon_prime'', py ''__init__.py''],
          [py ''work'', py ''StreamingCommunity'', py ''Api'', py ''Service'', py ''old_service'', py ''__init__.py'']])) =
      one_service"
    by code_simp
  have ne: "[[py ''work'', py ''StreamingCommunity'', py ''Api'', py ''Service'', py ''amazon_prime'', py ''__init__.py''],
    [py ''work'', py ''StreamingCommunity'', py ''Api'', py ''Service'', py ''old_service'', py ''__init__.py'']] \<noteq> []"
    by simp
  note T = deprecated_filtered_and_counted
             [OF two_dirs_found ne, of ascii_only "py ''2025-01-01 00:00:00''", unfolded infos]
  have w: "\<exists>path. written (main ascii_only two_dirs script (py ''2025-01-01 00:00:00'')) =
      Some (path, generate_markdown_table ascii_only (py ''2025-01-01 00:00:00'') one_service)"
    using T by blast
  have l: "last (stdout (main ascii_only two_dirs script (py ''2025-01-01 00:00:00''))) =
     py ''Deprecated services: 1''"
    by (simp add: two_dirs_stdout)
  show ?thesis
    using two_dirs_found ne w l by blast
qed

text \<open>
  C9: two runs on the same file contents, whatever the order in which the system lists the
  service directories and whatever the time, print the same lines, and either both write
  nothing or they write to the same path two documents equal up to the text of the
  timestamp in the line "*Last updated: ...*" that ends them. Extraction of a file depends
  on nothing but the text read from it.
\<close>

theorem runs_differ_only_in_timestamp:
  assumes "fs_exists fs' = fs_exists fs" and "fs_is_dir fs' = fs_is_dir fs"
    and "fs_read fs' = fs_read fs"
    and "\<forall>p. rel_sum (=) (\<lambda>a b. mset a = mset b) (fs_iterdir fs p) (fs_iterdir fs' p)"
  shows "stdout (main U fs' script_file now') = stdout (main U fs script_file now) \<and>
         raised (main U fs' script_file now') = raised (main U fs script_file now) \<and>
         (written (main U fs script_file now) = None \<and>
          written (main U fs' script_file now') = None \<or>
          (\<exists>path body.
             written (main U fs script_file now) =
               Some (path, body @ py ''*Last updated: '' @ now @ py ''*'' @ [10]) \<and>
             written (main U fs' script_file now') =
               Some (path, body @ py ''*Last updated: '' @ now' @ py ''*'' @ [10]))) \<and>
         (\<forall>init_file. extract_service_info U fs' init_file = extract_service_info U fs init_file)"
proof -
  let ?base = "parent (parent (parent (parent script_file)))"
  have same: "find_service_files fs' ?base = find_service_files fs ?base"
    using assms(1,2,4) by (intro find_service_files_listing_order) simp_all
  have ex: "extract_service_info U fs' f = extract_service_info U fs f" for f
    by (rule extract_depends_on_read [OF assms(3)])
  obtain found out2 where f: "find_service_files fs ?base = (found, out2)"
    by (cases "find_service_files fs ?base")
  show ?thesis
  proof (cases found)
    case (Inl e)
    then show ?thesis using f same ex by (simp add: main_def Let_def)
  next
    case (Inr init_files)
    show ?thesis
    proof (cases "init_files = []")
      case True
      then show ?thesis using f same ex Inr by (simp add: main_def Let_def)
    next
      case False
      have m: "find_service_files fs ?base = (Inr init_files, out2)"
        and m': "find_service_files fs' ?base = (Inr init_files, out2)"
        using f same Inr by simp_all
      show ?thesis
        unfolding main_found [OF m False] main_found [OF m' False]
        by (simp add: ex generate_markdown_table_body)
    qed
  qed
qed

theorem runs_differ_only_in_timestamp_witness:
  "fs_exists two_dirs_listed_backwards = fs_exists two_dirs \<and>
   fs_is_dir two_dirs_listed_backwards = fs_is_dir two_dirs \<and>
   fs_read two_dirs_listed_backwards = fs_read two_dirs \<and>
   (\<forall>p. rel_sum (=) (\<lambda>a b. mset a = mset b) (fs_iterdir two_dirs p)
          (fs_iterdir two_dirs_listed_backwards p)) \<and>
   stdout (main ascii_only two_dirs_listed_backwards script (py ''2025-01-02 00:00:00'')) =
     stdout (main ascii_only two_dirs script (py ''2025-01-01 00:00:00'')) \<and>
   (\<exists>path body.
      written (main ascii_only two_dirs script (py ''2025-01-01 00:00:00'')) =
        Some (path, body @ py ''*Last updated: '' @ py ''2025-01-01 00:00:00'' @ py ''*'' @ [10]) \<and>
      written (main ascii_only two_dirs_listed_backwards script (py ''2025-01-02 00:00:00'')) =
        Some (path, body @ py ''*Last updated: '' @ py ''2025-01-02 00:00:00'' @ py ''*'' @ [10]))"
proof -
  have h1: "fs_exists two_dirs_listed_backwards = fs_exists two_dirs"
    and h2: "fs_is_dir two_dirs_listed_backwards = fs_is_dir two_dirs"
    and h3: "fs_read two_dirs_listed_backwards = fs_read two_dirs"
    by (simp_all add: two_dirs_listed_backwards_def)
  have h4: "\<forall>p. rel_sum (=) (\<lambda>a b. mset a = mset b) (fs_iterdir two_dirs p)
          (fs_iterdir two_dirs_listed_backwards p)"
    by (simp add: two_dirs_listed_backwards_def two_dirs_def)
  have w: "written (main ascii_only two_dirs script (py ''2025-01-01 00:00:00'')) \<noteq> None"
    by (simp add: main_found [OF two_dirs_found])
  show ?thesis
    using runs_differ_only_in_timestamp [OF h1 h2 h3 h4, of ascii_only script
        "py ''2025-01-02 00:00:00''" "py ''2025-01-01 00:00:00''"] h1 h2 h3 h4 w
    by simp
qed

text \<open>
  C7: when discovery yields no declaration file, the run prints its diagnostic
  "No service files found!" last, writes no file and raises nothing.
\<close>

theorem no_services_no_output:
  assumes "fst (find_service_files fs (parent (parent (parent (parent script_file))))) = Inr []"
  shows "written (main U fs script_file now) = None \<and>
         raised (main U fs script_file now) = None \<and>
         last (stdout (main U fs script_file now)) = py ''No service files found!''"
  using assms
  by (cases "find_service_files fs (parent (parent (parent (parent script_file))))")
     (simp add: main_def Let_def)

theorem no_services_no_output_witness:
  "fst (find_service_files no_services
          (parent (parent (parent (parent [py ''repo'', py ''a'', py ''b'', py ''c'', py ''gen.py'']))))) = Inr [] \<and>
   written (main ascii_only no_services [py ''repo'', py ''a'', py ''b'', py ''c'', py ''gen.py''] (py ''2025-01-01 00:00:00'')) = None \<and>
   stdout (main ascii_only no_services [py ''repo'', py ''a'', py ''b'', py ''c'', py ''gen.py''] (py ''2025-01-01 00:00:00'')) =
     [py ''Base path: /repo'', py ''Services path not found: /repo/StreamingCommunity/Api/Service'',
      py ''Found 0 service files'', py ''No service files found!'']"
proof -
  have h: "fst (find_service_files no_services
          (parent (parent (parent (parent [py ''repo'', py ''a'', py ''b'', py ''c'', py ''gen.py'']))))) = Inr []"
    by (simp add: find_service_files_def no_services_def Let_def)
  have out: "stdout (main ascii_only no_services [py ''repo'', py ''a'', py ''b'', py ''c'', py ''gen.py''] (py ''2025-01-01 00:00:00'')) =
     [py ''Base path: /repo'', py ''Services path not found: /repo/StreamingCommunity/Api/Service'',
      py ''Found 0 service files'', py ''No service files found!'']"
    by code_simp
  show ?thesis
    using h out no_services_no_output [OF h, of ascii_only "py ''2025-01-01 00:00:00''"]
    by simp
qed

section \<open>The matcher on the patterns of the script\<close>

lemma set_ms_In: "set (ms U (In cs) s) = {t. \<exists>c. s = c # t \<and> in_set U cs c}"
  by (cases s) (auto simp: ms.simps(2))

lemma lit_Cons: "lit (c # w) = Seq (In [Chr c]) (lit w)"
  by (simp add: lit_def)

lemma lit_Nil: "lit [] = Eps"
  by (simp add: lit_def)

lemma in_set_Chr: "in_set U [Chr k] c = (c = k)"
  by (simp add: in_set_def)

lemma ms_lit: "ms U (lit w) s = (if take (length w) s = w then [drop (length w) s] else [])"
proof (induction w arbitrary: s)
  case Nil
  show ?case by (simp add: lit_Nil ms.simps(1))
next
  case (Cons c w)
  show ?case
  proof (cases s)
    case Nil
    then show ?thesis by (simp add: lit_Cons ms.simps(2,3))
  next
    case (Cons d t)
    then show ?thesis by (simp add: lit_Cons Cons.IH in_set_Chr ms.simps(2,3))
  qed
qed

lemma set_ms_lit: "set (ms U (lit w) s) = {t. s = w @ t}"
proof -
  have "take (length w) s = w \<longleftrightarrow> (\<exists>t. s = w @ t)"
    by (metis append_eq_conv_conj append_take_drop_id)
  then show ?thesis
    by (auto simp: ms_lit)
qed

lemma ms_Star_In_Cons:
  "ms U (Star (In cs)) (c # s) =
     (if in_set U cs c then ms U (Star (In cs)) s @ [c # s] else [c # s])"
  by (subst ms.simps(5)) (simp add: ms.simps(2))

lemma ms_Star_In_Nil: "ms U (Star (In cs)) [] = [[]]"
  by (subst ms.simps(5)) (simp add: ms.simps(2))

lemma set_ms_Star_In:
  "set (ms U (Star (In cs)) s) = {t. \<exists>w. s = w @ t \<and> (\<forall>c \<in> set w. in_set U cs c)}"
proof (induction s)
  case Nil
  show ?case unfolding ms_Star_In_Nil by auto
next
  case (Cons c s)
  have "t \<in> set (ms U (Star (In cs)) (c # s)) \<longleftrightarrow>
        (\<exists>w. c # s = w @ t \<and> (\<forall>c \<in> set w. in_set U cs c))" for t
  proof
    assume "t \<in> set (ms U (Star (In cs)) (c # s))"
    then consider "t = c # s" | "in_set U cs c" "t \<in> set (ms U (Star (In cs)) s)"
      unfolding ms_Star_In_Cons by (auto split: if_splits)
    then show "\<exists>w. c # s = w @ t \<and> (\<forall>c \<in> set w. in_set U cs c)"
    proof cases
      case 1
      then have "c # s = [] @ t \<and> (\<forall>c \<in> set []. in_set U cs c)" by simp
      then show ?thesis by blast
    next
      case 2
      then obtain w where "s = w @ t" "\<forall>c \<in> set w. in_set U cs c"
        unfolding Cons.IH by blast
      then have "c # s = (c # w) @ t \<and> (\<forall>x \<in> set (c # w). in_set U cs x)"
        using 2(1) by simp
      then show ?thesis by blast
    qed
  next
    assume "\<exists>w. c # s = w @ t \<and> (\<forall>c \<in> set w. in_set U cs c)"
    then obtain w where w: "c # s = w @ t" "\<forall>c \<in> set w. in_set U cs c" by blast
    show "t \<in> set (ms U (Star (In cs)) (c # s))"
    proof (cases w)
      case Nil
      then show ?thesis using w unfolding ms_Star_In_Cons by simp
    next
      case (Cons d w')
      then have "s = w' @ t" "\<forall>c \<in> set w'. in_set U cs c" "in_set U cs c"
        using w by simp_all
      then have "t \<in> set (ms U (Star (In cs)) s)" "in_set U cs c"
        unfolding Cons.IH by blast+
      then show ?thesis unfolding ms_Star_In_Cons by simp
    qed
  qed
  then show ?case by blast
qed

lemma in_set_Space: "in_set U [Space] c = is_space U c"
  by (simp add: in_set_def)

lemma set_ms_Seq: "set (ms U (Seq a b) s) = (\<Union>t \<in> set (ms U a s). set (ms U b t))"
  by (simp add: ms.simps(3))

lemma set_ms_Alt: "set (ms U (Alt a b) s) = set (ms U a s) \<union> set (ms U b s)"
  by (simp add: ms.simps(4))

lemma set_ms_rplus_In:
  "set (ms U (rplus (In cs)) s) =
     {t. \<exists>w. s = w @ t \<and> w \<noteq> [] \<and> (\<forall>c \<in> set w. in_set U cs c)}"
proof -
  have "t \<in> set (ms U (rplus (In cs)) s) \<longleftrightarrow>
        (\<exists>w. s = w @ t \<and> w \<noteq> [] \<and> (\<forall>c \<in> set w. in_set U cs c))" for t
  proof
    assume "t \<in> set (ms U (rplus (In cs)) s)"
    then obtain c w where "s = c # w @ t" "in_set U cs c" "\<forall>c \<in> set w. in_set U cs c"
      unfolding rplus_def set_ms_Seq set_ms_In set_ms_Star_In by blast
    then have "s = (c # w) @ t \<and> c # w \<noteq> [] \<and> (\<forall>x \<in> set (c # w). in_set U cs x)"
      by simp
    then show "\<exists>w. s = w @ t \<and> w \<noteq> [] \<and> (\<forall>c \<in> set w. in_set U cs c)"
      by blast
  next
    assume "\<exists>w. s = w @ t \<and> w \<noteq> [] \<and> (\<forall>c \<in> set w. in_set U cs c)"
    then obtain c w where "s = c # w @ t" "in_set U cs c" "\<forall>c \<in> set w. in_set U cs c"
      by (metis append_Cons list.exhaust list.set_intros(1) list.set_intros(2))
    then show "t \<in> set (ms U (rplus (In cs)) s)"
      unfolding rplus_def set_ms_Seq set_ms_In set_ms_Star_In by blast
  qed
  then show ?thesis by blast
qed

lemma set_ms_assign_re:
  "set (ms U (assign_re attr) s) = {t. assignment U attr s t}"
proof -
  have "t \<in> set (ms U (assign_re attr) s) \<longleftrightarrow> assignment U attr s t" for t
  proof
    assume "t \<in> set (ms U (assign_re attr) s)"
    then obtain s1 ws1 s2 ws2 where
      "s = py attr @ s1" "s1 = ws1 @ s2" "\<forall>c \<in> set ws1. is_space U c"
      "s2 = 61 # ws2 @ t" "\<forall>c \<in> set ws2. is_space U c"
      unfolding assign_re_def set_ms_Seq set_ms_lit set_ms_Star_In set_ms_In
        in_set_Space in_set_Chr
      by blast
    then show "assignment U attr s t"
      unfolding assignment_def spaces_def by auto
  next
    assume "assignment U attr s t"
    then obtain ws1 ws2 where "s = py attr @ ws1 @ [61] @ ws2 @ t"
      "\<forall>c \<in> set ws1. is_space U c" "\<forall>c \<in> set ws2. is_space U c"
      unfolding assignment_def spaces_def by blast
    then show "t \<in> set (ms U (assign_re attr) s)"
      unfolding assign_re_def set_ms_Seq set_ms_lit set_ms_Star_In set_ms_In
        in_set_Space in_set_Chr
      by auto
  qed
  then show ?thesis by blast
qed

lemma match_at_cases:
  "match_at U (pre, grp, post) s =
     (case [take (length t - length u) t.
              t \<leftarrow> ms U pre s, u \<leftarrow> ms U grp t, v \<leftarrow> ms U post u] of
        [] \<Rightarrow> None | g # _ \<Rightarrow> Some g)"
  by (simp add: match_at_def)

lemma set_candidates:
  "set [take (length t - length u) t.
          t \<leftarrow> ms U pre s, u \<leftarrow> ms U grp t, v \<leftarrow> ms U post u] =
     {g. matches U (pre, grp, post) s g}"
proof -
  have "ms U post u \<noteq> [] \<longleftrightarrow> (\<exists>v. v \<in> set (ms U post u))" for u
    by (cases "ms U post u") auto
  then show ?thesis
    by (auto simp: matches_def)
qed

lemma match_at_None: "match_at U p s = None \<longleftrightarrow> (\<forall>g. \<not> matches U p s g)"
proof -
  obtain pre grp post where p: "p = (pre, grp, post)" by (cases p)
  define L where "L = [take (length t - length u) t.
              t \<leftarrow> ms U pre s, u \<leftarrow> ms U grp t, v \<leftarrow> ms U post u]"
  have m: "match_at U p s = (case L of [] \<Rightarrow> None | g # _ \<Rightarrow> Some g)"
    unfolding p L_def by (rule match_at_cases)
  have s: "set L = {g. matches U p s g}"
    unfolding p L_def by (rule set_candidates)
  have "match_at U p s = None \<longleftrightarrow> L = []"
    unfolding m by (cases L) simp_all
  also have "\<dots> \<longleftrightarrow> set L = {}" by simp
  also have "\<dots> \<longleftrightarrow> (\<forall>g. \<not> matches U p s g)" unfolding s by blast
  finally show ?thesis .
qed

lemma match_at_Some: "match_at U p s = Some g \<Longrightarrow> matches U p s g"
proof -
  assume a: "match_at U p s = Some g"
  obtain pre grp post where p: "p = (pre, grp, post)" by (cases p)
  define L where "L = [take (length t - length u) t.
              t \<leftarrow> ms U pre s, u \<leftarrow> ms U grp t, v \<leftarrow> ms U post u]"
  have m: "match_at U p s = (case L of [] \<Rightarrow> None | g # _ \<Rightarrow> Some g)"
    unfolding p L_def by (rule match_at_cases)
  have s: "set L = {g. matches U p s g}"
    unfolding p L_def by (rule set_candidates)
  from a have "g \<in> set L"
    unfolding m by (cases L) simp_all
  then show ?thesis unfolding s by simp
qed

lemma match_at_unique:
  assumes "\<And>g g'. matches U p s g \<Longrightarrow> matches U p s g' \<Longrightarrow> g = g'"
  shows "match_at U p s = Some g \<longleftrightarrow> matches U p s g"
proof
  assume "match_at U p s = Some g"
  then show "matches U p s g" by (rule match_at_Some)
next
  assume m: "matches U p s g"
  then have "match_at U p s \<noteq> None" by (auto simp: match_at_None)
  then obtain g' where g': "match_at U p s = Some g'" by blast
  then have "matches U p s g'" by (rule match_at_Some)
  with m assms have "g = g'" by blast
  with g' show "match_at U p s = Some g" by simp
qed

lemma re_search_None:
  "re_search U p s = None \<longleftrightarrow> (\<forall>i\<le>length s. match_at U p (drop i s) = None)"
proof (induction s)
  case Nil
  show ?case by simp
next
  case (Cons c s)
  have "(\<forall>i\<le>length (c # s). match_at U p (drop i (c # s)) = None) \<longleftrightarrow>
        match_at U p (c # s) = None \<and> (\<forall>i\<le>length s. match_at U p (drop i s) = None)"
  proof (intro iffI conjI allI impI)
    assume a: "\<forall>i\<le>length (c # s). match_at U p (drop i (c # s)) = None"
    from a [rule_format, of 0] show "match_at U p (c # s) = None" by simp
    fix i assume "i \<le> length s"
    with a [rule_format, of "Suc i"] show "match_at U p (drop i s) = None" by simp
  next
    fix i
    assume a: "match_at U p (c # s) = None \<and> (\<forall>i\<le>length s. match_at U p (drop i s) = None)"
      and i: "i \<le> length (c # s)"
    show "match_at U p (drop i (c # s)) = None"
      using a i by (cases i) simp_all
  qed
  then show ?case
    by (simp add: Cons.IH split: option.splits)
qed

lemma re_search_Some:
  "re_search U p s = Some g \<longleftrightarrow>
     (\<exists>i\<le>length s. match_at U p (drop i s) = Some g \<and> (\<forall>j<i. match_at U p (drop j s) = None))"
proof (induction s)
  case Nil
  show ?case by simp
next
  case (Cons c s)
  show ?case
  proof (cases "match_at U p (c # s)")
    case (Some g')
    have "(\<exists>i\<le>length (c # s). match_at U p (drop i (c # s)) = Some g \<and>
             (\<forall>j<i. match_at U p (drop j (c # s)) = None)) \<longleftrightarrow> g' = g"
    proof
      assume "\<exists>i\<le>length (c # s). match_at U p (drop i (c # s)) = Some g \<and>
             (\<forall>j<i. match_at U p (drop j (c # s)) = None)"
      then obtain i where i: "match_at U p (drop i (c # s)) = Some g"
        "\<forall>j<i. match_at U p (drop j (c # s)) = None" by blast
      show "g' = g"
      proof (cases i)
        case 0
        with i(1) Some show ?thesis by simp
      next
        case (Suc k)
        with i(2) [rule_format, of 0] Some show ?thesis by simp
      qed
    next
      assume "g' = g"
      then have "0 \<le> length (c # s) \<and> match_at U p (drop 0 (c # s)) = Some g \<and>
             (\<forall>j<0. match_at U p (drop j (c # s)) = None)"
        using Some by simp
      then show "\<exists>i\<le>length (c # s). match_at U p (drop i (c # s)) = Some g \<and>
             (\<forall>j<i. match_at U p (drop j (c # s)) = None)"
        by blast
    qed
    then show ?thesis using Some by simp
  next
    case None
    have "(\<exists>i\<le>length (c # s). match_at U p (drop i (c # s)) = Some g \<and>
             (\<forall>j<i. match_at U p (drop j (c # s)) = None)) \<longleftrightarrow>
          (\<exists>i\<le>length s. match_at U p (drop i s) = Some g \<and>
             (\<forall>j<i. match_at U p (drop j s) = None))"
    proof
      assume "\<exists>i\<le>length (c # s). match_at U p (drop i (c # s)) = Some g \<and>
             (\<forall>j<i. match_at U p (drop j (c # s)) = None)"
      then obtain i where i: "i \<le> length (c # s)" "match_at U p (drop i (c # s)) = Some g"
        "\<forall>j<i. match_at U p (drop j (c # s)) = None" by blast
      then obtain k where k: "i = Suc k" using None by (cases i) simp_all
      have "\<forall>j<k. match_at U p (drop j s) = None"
      proof (intro allI impI)
        fix j assume "j < k"
        with i(3) [rule_format, of "Suc j"] k show "match_at U p (drop j s) = None" by simp
      qed
      with i k show "\<exists>i\<le>length s. match_at U p (drop i s) = Some g \<and>
             (\<forall>j<i. match_at U p (drop j s) = None)"
        by (intro exI [of _ k]) simp
    next
      assume "\<exists>i\<le>length s. match_at U p (drop i s) = Some g \<and>
             (\<forall>j<i. match_at U p (drop j s) = None)"
      then obtain k where k: "k \<le> length s" "match_at U p (drop k s) = Some g"
        "\<forall>j<k. match_at U p (drop j s) = None" by blast
      have "\<forall>j<Suc k. match_at U p (drop j (c # s)) = None"
      proof (intro allI impI)
        fix j assume "j < Suc k"
        then show "match_at U p (drop j (c # s)) = None"
          using None k(3) by (cases j) simp_all
      qed
      with k show "\<exists>i\<le>length (c # s). match_at U p (drop i (c # s)) = Some g \<and>
             (\<forall>j<i. match_at U p (drop j (c # s)) = None)"
        by (intro exI [of _ "Suc k"]) simp
    qed
    then show ?thesis using None by (simp add: Cons.IH)
  qed
qed

lemma re_search_first_match:
  assumes "\<And>t g g'. matches U p t g \<Longrightarrow> matches U p t g' \<Longrightarrow> g = g'"
    and "first_match (matches U p) s v"
  shows "re_search U p s = Some v"
proof -
  from assms(2) obtain i where i: "i \<le> length s" "matches U p (drop i s) v"
    "\<forall>j<i. \<forall>v'. \<not> matches U p (drop j s) v'"
    unfolding first_match_def by blast
  have "match_at U p (drop i s) = Some v"
    using i(2) assms(1) by (subst match_at_unique) blast+
  moreover have "\<forall>j<i. match_at U p (drop j s) = None"
    using i(3) by (simp add: match_at_None)
  ultimately show ?thesis
    unfolding re_search_Some using i(1) by blast
qed

lemma re_search_no_match:
  assumes "no_match (matches U p) s"
  shows "re_search U p s = None"
  using assms unfolding re_search_None no_match_def match_at_None by blast

lemma in_set_quote: "in_set U [Chr 34, Chr 39] q \<longleftrightarrow> q = 34 \<or> q = 39"
  by (auto simp: in_set_def)

lemma ms_quote_nonempty: "ms U quote u \<noteq> [] \<longleftrightarrow> (\<exists>q rest. u = q # rest \<and> (q = 34 \<or> q = 39))"
  by (cases u) (simp_all add: quote_def ms.simps(2) in_set_quote)

lemma matches_triple:
  "matches U (pre, grp, post) s g \<longleftrightarrow>
     (\<exists>t u. t \<in> set (ms U pre s) \<and> u \<in> set (ms U grp t) \<and> ms U post u \<noteq> [] \<and>
            g = take (length t - length u) t)"
  by (simp add: matches_def)

lemma matches_quoted:
  "matches U (Seq (assign_re attr) quote, rplus (In cs), quote) s g \<longleftrightarrow> quoted_at U attr cs s g"
proof
  assume "matches U (Seq (assign_re attr) quote, rplus (In cs), quote) s g"
  then obtain t u where t: "t \<in> set (ms U (Seq (assign_re attr) quote) s)"
    and u: "u \<in> set (ms U (rplus (In cs)) t)" and q: "ms U quote u \<noteq> []"
    and g: "g = take (length t - length u) t"
    unfolding matches_triple by blast
  from t obtain q1 where a: "assignment U attr s (q1 # t)" and q1: "q1 = 34 \<or> q1 = 39"
    unfolding set_ms_Seq set_ms_assign_re quote_def set_ms_In in_set_quote by blast
  from u obtain w where w: "t = w @ u" "w \<noteq> []" "\<forall>c \<in> set w. in_set U cs c"
    unfolding set_ms_rplus_In by blast
  from q obtain q2 rest where q2: "u = q2 # rest" "q2 = 34 \<or> q2 = 39"
    unfolding ms_quote_nonempty by blast
  have "g = w" using g w(1) by simp
  then show "quoted_at U attr cs s g"
    unfolding quoted_at_def using a q1 w q2 by auto
next
  assume "quoted_at U attr cs s g"
  then obtain q1 q2 rest where g: "g \<noteq> []" "\<forall>c \<in> set g. in_set U cs c"
    and q: "q1 = 34 \<or> q1 = 39" "q2 = 34 \<or> q2 = 39"
    and a: "assignment U attr s (q1 # g @ q2 # rest)"
    unfolding quoted_at_def by auto
  have 1: "g @ q2 # rest \<in> set (ms U (Seq (assign_re attr) quote) s)"
    unfolding set_ms_Seq set_ms_assign_re quote_def set_ms_In in_set_quote
    using a q(1) by blast
  have 2: "q2 # rest \<in> set (ms U (rplus (In cs)) (g @ q2 # rest))"
    unfolding set_ms_rplus_In using g by blast
  have 3: "ms U quote (q2 # rest) \<noteq> []"
    unfolding ms_quote_nonempty using q(2) by blast
  have 4: "g = take (length (g @ q2 # rest) - length (q2 # rest)) (g @ q2 # rest)"
    by simp
  show "matches U (Seq (assign_re attr) quote, rplus (In cs), quote) s g"
    unfolding matches_triple using 1 2 3 4 by blast
qed

lemma matches_bool:
  "matches U (assign_re attr, Alt (lit (py ''True'')) (lit (py ''False'')), Eps) s g \<longleftrightarrow>
   bool_at U attr s g"
proof
  assume "matches U (assign_re attr, Alt (lit (py ''True'')) (lit (py ''False'')), Eps) s g"
  then obtain t u where "t \<in> set (ms U (assign_re attr) s)"
    and "u \<in> set (ms U (Alt (lit (py ''True'')) (lit (py ''False''))) t)"
    and g: "g = take (length t - length u) t"
    unfolding matches_triple by blast
  then have t: "assignment U attr s t"
    and u: "t = py ''True'' @ u \<or> t = py ''False'' @ u"
    unfolding set_ms_assign_re set_ms_Alt set_ms_lit by blast+
  from u g have "(g = py ''True'' \<or> g = py ''False'') \<and> t = g @ u" by auto
  then show "bool_at U attr s g"
    unfolding bool_at_def using t by blast
next
  assume "bool_at U attr s g"
  then obtain rest where g: "g = py ''True'' \<or> g = py ''False''"
    and a: "assignment U attr s (g @ rest)"
    unfolding bool_at_def by blast
  have 1: "g @ rest \<in> set (ms U (assign_re attr) s)"
    unfolding set_ms_assign_re using a by simp
  have 2: "rest \<in> set (ms U (Alt (lit (py ''True'')) (lit (py ''False''))) (g @ rest))"
    unfolding set_ms_Alt set_ms_lit using g by auto
  have 3: "ms U Eps rest \<noteq> []" by (simp add: ms.simps(1))
  have 4: "g = take (length (g @ rest) - length rest) (g @ rest)" by simp
  show "matches U (assign_re attr, Alt (lit (py ''True'')) (lit (py ''False'')), Eps) s g"
    unfolding matches_triple using 1 2 3 4 by blast
qed

lemma split_unique:
  assumes "xs @ a # r = ys @ b # r'" "\<forall>x \<in> set xs. P x" "\<forall>y \<in> set ys. P y" "\<not> P a" "\<not> P b"
  shows "xs = ys \<and> a = b \<and> r = r'"
  using assms
proof (induction xs arbitrary: ys)
  case Nil
  then show ?case by (cases ys) auto
next
  case (Cons x xs)
  show ?case
  proof (cases ys)
    case Nil
    with Cons.prems show ?thesis by auto
  next
    case (Cons y ys')
    with Cons.prems have "xs @ a # r = ys' @ b # r'" "\<forall>x \<in> set xs. P x" "\<forall>y \<in> set ys'. P y" "x = y"
      by auto
    with Cons.IH [of ys'] Cons.prems(4,5) Cons show ?thesis by simp
  qed
qed

lemma assignment_unique:
  assumes "assignment U attr s (a # r)" "assignment U attr s (b # r')"
    and "\<not> is_space U a" "\<not> is_space U b"
  shows "a = b \<and> r = r'"
proof -
  from assms(1) obtain ws1 ws2 where 1: "s = py attr @ ws1 @ [61] @ ws2 @ a # r"
    "\<forall>c \<in> set ws1. is_space U c" "\<forall>c \<in> set ws2. is_space U c"
    unfolding assignment_def spaces_def by blast
  from assms(2) obtain ws1' ws2' where 2: "s = py attr @ ws1' @ [61] @ ws2' @ b # r'"
    "\<forall>c \<in> set ws1'. is_space U c" "\<forall>c \<in> set ws2'. is_space U c"
    unfolding assignment_def spaces_def by blast
  have e: "\<not> is_space U 61" by (simp add: is_space_def)
  from 1(1) 2(1) have "ws1 @ 61 # (ws2 @ a # r) = ws1' @ 61 # (ws2' @ b # r')" by simp
  from split_unique [OF this 1(2) 2(2) e e]
  have "ws2 @ a # r = ws2' @ b # r'" by simp
  from split_unique [OF this 1(3) 2(3) assms(3,4)]
  show ?thesis by simp
qed

lemma quoted_at_unique:
  assumes "quoted_at U attr cs s v" "quoted_at U attr cs s v'"
    and "\<not> in_set U cs 34" "\<not> in_set U cs 39"
  shows "v = v'"
proof -
  from assms(1) obtain q1 q2 rest where 1: "\<forall>c \<in> set v. in_set U cs c"
    "q1 = 34 \<or> q1 = 39" "q2 = 34 \<or> q2 = 39" "assignment U attr s (q1 # v @ q2 # rest)"
    unfolding quoted_at_def by auto
  from assms(2) obtain q1' q2' rest' where 2: "\<forall>c \<in> set v'. in_set U cs c"
    "q1' = 34 \<or> q1' = 39" "q2' = 34 \<or> q2' = 39" "assignment U attr s (q1' # v' @ q2' # rest')"
    unfolding quoted_at_def by auto
  have sp: "\<not> is_space U q1" "\<not> is_space U q1'"
    using 1(2) 2(2) by (auto simp: is_space_def)
  from assignment_unique [OF 1(4) 2(4) sp] have e: "v @ q2 # rest = v' @ q2' # rest'"
    by simp
  have "\<not> in_set U cs q2" "\<not> in_set U cs q2'"
    using 1(3) 2(3) assms(3,4) by auto
  from split_unique [OF e 1(1) 2(1) this] show ?thesis by simp
qed

lemma bool_token_head:
  assumes "tok = py ''True'' \<or> tok = py ''False''"
  shows "\<exists>w. tok = (if tok = py ''True'' then 84 else 70) # w"
proof (cases "tok = py ''True''")
  case True
  have "py ''True'' = 84 # py ''rue''" by (simp add: py_def)
  with True show ?thesis by simp
next
  case False
  with assms have f: "tok = py ''False''" by simp
  have "py ''False'' = 70 # py ''alse''" by (simp add: py_def)
  with False f show ?thesis by simp
qed

lemma bool_at_unique:
  assumes "bool_at U attr s tok" "bool_at U attr s tok'"
  shows "tok = tok'"
proof -
  let ?h = "if tok = py ''True'' then 84 else 70 :: nat"
  let ?h' = "if tok' = py ''True'' then 84 else 70 :: nat"
  from assms(1) obtain rest where t: "tok = py ''True'' \<or> tok = py ''False''"
    and a: "assignment U attr s (tok @ rest)"
    unfolding bool_at_def by blast
  from assms(2) obtain rest' where t': "tok' = py ''True'' \<or> tok' = py ''False''"
    and a': "assignment U attr s (tok' @ rest')"
    unfolding bool_at_def by blast
  from bool_token_head [OF t] obtain w where w: "tok = ?h # w" by blast
  from bool_token_head [OF t'] obtain w' where w': "tok' = ?h' # w'" by blast
  have 1: "assignment U attr s (?h # (w @ rest))"
    using a by (subst (asm) w) simp
  have 2: "assignment U attr s (?h' # (w' @ rest'))"
    using a' by (subst (asm) w') simp
  have sp: "\<not> is_space U ?h" "\<not> is_space U ?h'"
    by (simp_all add: is_space_def)
  from assignment_unique [OF 1 2 sp] have "?h = ?h'" by blast
  then have "tok = py ''True'' \<longleftrightarrow> tok' = py ''True''"
    by (simp split: if_splits)
  with t t' show ?thesis by blast
qed

lemma not_word_quote: "\<not> in_set U [Word] 34" "\<not> in_set U [Word] 39"
  "\<not> in_set U [Word, Space] 34" "\<not> in_set U [Word, Space] 39"
  by (simp_all add: in_set_def is_alnum_def is_space_def)

lemma extract_fields:
  assumes "fs_read fs init_file = Inr content"
  shows "stream_type_of (fst (extract_service_info U fs init_file)) =
           (case re_search U stream_type_pat content of Some g \<Rightarrow> g | None \<Rightarrow> py ''N/A'')"
    and "drm_of (fst (extract_service_info U fs init_file)) =
           (case re_search U drm_pat content of Some g \<Rightarrow> g = py ''True'' | None \<Rightarrow> False)"
    and "deprecated (fst (extract_service_info U fs init_file)) =
           (case re_search U deprecate_pat content of Some g \<Rightarrow> g = py ''True'' | None \<Rightarrow> False)"
    and "max_resolution_of (fst (extract_service_info U fs init_file)) =
           (case re_search U max_resolution_pat content of Some g \<Rightarrow> g | None \<Rightarrow> py ''N/A'')"
    and "region_of (fst (extract_service_info U fs init_file)) =
           (case re_search U region_pat content of Some g \<Rightarrow> g | None \<Rightarrow> py ''N/A'')"
  using assms
  by (simp_all add: extract_service_info_def Let_def stream_type_of_def drm_of_def
        deprecated_def max_resolution_of_def region_of_def)

lemma search_quoted:
  assumes "\<not> in_set U cs 34" "\<not> in_set U cs 39"
  shows "first_match (quoted_at U attr cs) s v \<Longrightarrow>
           re_search U (Seq (assign_re attr) quote, rplus (In cs), quote) s = Some v"
    and "no_match (quoted_at U attr cs) s \<Longrightarrow>
           re_search U (Seq (assign_re attr) quote, rplus (In cs), quote) s = None"
proof -
  let ?p = "(Seq (assign_re attr) quote, rplus (In cs), quote)"
  have eq: "matches U ?p = quoted_at U attr cs"
    by (intro ext) (rule matches_quoted)
  have uniq: "g = g'" if "matches U ?p t g" "matches U ?p t g'" for t g g'
    using that assms unfolding eq by (rule quoted_at_unique)
  show "re_search U ?p s = Some v" if "first_match (quoted_at U attr cs) s v"
    using that unfolding eq [symmetric] by (intro re_search_first_match uniq)
  show "re_search U ?p s = None" if "no_match (quoted_at U attr cs) s"
    using that unfolding eq [symmetric] by (rule re_search_no_match)
qed

lemma search_bool:
  shows "first_match (bool_at U attr) s tok \<Longrightarrow>
           re_search U (assign_re attr, Alt (lit (py ''True'')) (lit (py ''False'')), Eps) s = Some tok"
    and "no_match (bool_at U attr) s \<Longrightarrow>
           re_search U (assign_re attr, Alt (lit (py ''True'')) (lit (py ''False'')), Eps) s = None"
proof -
  let ?p = "(assign_re attr, Alt (lit (py ''True'')) (lit (py ''False'')), Eps)"
  have eq: "matches U ?p = bool_at U attr"
    by (intro ext) (rule matches_bool)
  have uniq: "g = g'" if "matches U ?p t g" "matches U ?p t g'" for t g g'
    using that unfolding eq by (rule bool_at_unique)
  show "re_search U ?p s = Some tok" if "first_match (bool_at U attr) s tok"
    using that unfolding eq [symmetric] by (intro re_search_first_match uniq)
  show "re_search U ?p s = None" if "no_match (bool_at U attr) s"
    using that unfolding eq [symmetric] by (rule re_search_no_match)
qed

lemma first_match_quoted_no_quote:
  assumes "first_match (quoted_at U attr cs) s v" "\<not> in_set U cs 34" "\<not> in_set U cs 39"
  shows "34 \<notin> set v \<and> 39 \<notin> set v"
proof -
  from assms(1) obtain i where "quoted_at U attr cs (drop i s) v"
    unfolding first_match_def by blast
  then have "\<forall>c \<in> set v. in_set U cs c"
    unfolding quoted_at_def by blast
  with assms(2,3) show ?thesis by blast
qed

lemma assignment_contains:
  assumes "assignment U attr s rhs"
  shows "set (py attr) \<subseteq> set s"
  using assms unfolding assignment_def by auto

lemma no_match_missing_char:
  assumes "c \<in> set (py attr)" "c \<notin> set s"
  shows "no_match (quoted_at U attr cs) s" and "no_match (bool_at U attr) s"
proof -
  have "\<not> assignment U attr (drop i s) rhs" for i rhs
  proof
    assume "assignment U attr (drop i s) rhs"
    then have "c \<in> set (drop i s)" using assignment_contains assms(1) by blast
    then show False using assms(2) by (meson in_set_dropD)
  qed
  then show "no_match (quoted_at U attr cs) s" and "no_match (bool_at U attr) s"
    unfolding no_match_def quoted_at_def bool_at_def by blast+
qed

lemma first_match_here:
  assumes "M s v"
  shows "first_match M s v"
  unfolding first_match_def using assms by (intro exI [of _ 0]) simp

section \<open>Extraction\<close>

text \<open>
  C10: the opening and the closing quote are matched independently. A text whose three
  string attributes are each delimited by a double quote on one side and a single quote on
  the other (code points 34 and 39) has all three values extracted, none left at "N/A".
\<close>

theorem mismatched_quotes_extracted:
  "extract_service_info U
     \<lparr>fs_exists = ex, fs_is_dir = isd, fs_iterdir = ls,
      fs_read = (\<lambda>p. Inr (py ''_stream_type = '' @ [34] @ py ''HLS'' @ [39, 10] @
                          py ''_maxResolution='' @ [39] @ py ''4K UHD'' @ [34, 10] @
                          py ''_region  ='' @ [34] @ py '' IT'' @ [39, 10]))\<rparr> init_file
   = ((name (parent init_file), py ''HLS'', False, False, py ''4K UHD'', py '' IT''), [])"
  by code_simp

text \<open>
  C6: extraction of a file yields one record whatever happens. When opening or reading the
  file raises, the record is the name of the parent directory with "N/A", False, False,
  "N/A", "N/A", the error is printed and nothing is raised (the result is a record, not an
  error). Over a whole run each file accounts for exactly one record: the kept records and
  the deprecated count add up to the number of files.
\<close>

theorem extract_one_record_defaults_on_failure:
  "(fs_read fs init_file = Inl e \<longrightarrow>
      extract_service_info U fs init_file =
        ((name (parent init_file), py ''N/A'', False, False, py ''N/A'', py ''N/A''),
         [py ''Error reading '' @ path_str init_file @ py '': '' @ e])) \<and>
   (\<forall>services n out. collect U fs init_files ([], 0, []) = (services, n, out) \<longrightarrow>
      length services + n = length init_files)"
proof (intro conjI impI allI)
  assume "fs_read fs init_file = Inl e"
  then show "extract_service_info U fs init_file =
        ((name (parent init_file), py ''N/A'', False, False, py ''N/A'', py ''N/A''),
         [py ''Error reading '' @ path_str init_file @ py '': '' @ e])"
    by (simp add: extract_service_info_def)
next
  fix services n out
  assume "collect U fs init_files ([], 0, []) = (services, n, out)"
  then have s: "services = map keep (filter (\<lambda>i. \<not> deprecated i)
                    (map (\<lambda>f. fst (extract_service_info U fs f)) init_files))"
    and n: "n = length (filter deprecated (map (\<lambda>f. fst (extract_service_info U fs f)) init_files))"
    by (simp_all add: collect_acc)
  show "length services + n = length init_files"
    unfolding s n length_map
    using sum_length_filter_compl [of "\<lambda>i. \<not> deprecated i"
        "map (\<lambda>f. fst (extract_service_info U fs f)) init_files"]
    by simp
qed

theorem extract_one_record_defaults_on_failure_witness:
  "fs_read no_services [py ''svc'', py ''__init__.py''] = Inl (py ''No such file or directory'') \<and>
   extract_service_info ascii_only no_services [py ''svc'', py ''__init__.py''] =
     ((py ''svc'', py ''N/A'', False, False, py ''N/A'', py ''N/A''),
      [py ''Error reading /svc/__init__.py: No such file or directory'']) \<and>
   collect ascii_only no_services [[py ''svc'', py ''__init__.py'']] ([], 0, []) =
     ([(py ''svc'', py ''N/A'', False, py ''N/A'', py ''N/A'')], 0,
      [py ''Error reading /svc/__init__.py: No such file or directory'']) \<and>
   length [(py ''svc'', py ''N/A'', False, py ''N/A'', py ''N/A'')] + 0 =
     length [[py ''svc'', py ''__init__.py'']]"
  using extract_one_record_defaults_on_failure
          [of no_services "[py ''svc'', py ''__init__.py'']" "py ''No such file or directory''"
              ascii_only "[[py ''svc'', py ''__init__.py'']]"]
  by (simp add: no_services_def extract_service_info_def name_def parent_def path_str_def py_def)

text \<open>
  C4: in a text that was read, for each of \<open>_drm\<close> and \<open>_deprecate\<close>: if the text
  assigns \<open>True\<close> or \<open>False\<close> to the attribute, the extracted boolean is true exactly
  when the literal at the leftmost such assignment is \<open>True\<close>; and if no position has
  such an assignment, the boolean is false.
\<close>

theorem boolean_fields_extracted:
  assumes "fs_read fs init_file = Inr content"
  shows
   "(\<forall>tok. first_match (bool_at U ''_drm'') content tok \<longrightarrow>
         drm_of (fst (extract_service_info U fs init_file)) = (tok = py ''True'')) \<and>
    (no_match (bool_at U ''_drm'') content \<longrightarrow>
         drm_of (fst (extract_service_info U fs init_file)) = False) \<and>
    (\<forall>tok. first_match (bool_at U ''_deprecate'') content tok \<longrightarrow>
         deprecated (fst (extract_service_info U fs init_file)) = (tok = py ''True'')) \<and>
    (no_match (bool_at U ''_deprecate'') content \<longrightarrow>
         deprecated (fst (extract_service_info U fs init_file)) = False)"
proof (intro conjI allI impI)
  fix tok assume m: "first_match (bool_at U ''_drm'') content tok"
  show "drm_of (fst (extract_service_info U fs init_file)) = (tok = py ''True'')"
    unfolding extract_fields(2) [OF assms] drm_pat_def
    by (simp add: search_bool(1) [OF m])
next
  assume m: "no_match (bool_at U ''_drm'') content"
  show "drm_of (fst (extract_service_info U fs init_file)) = False"
    unfolding extract_fields(2) [OF assms] drm_pat_def
    by (simp add: search_bool(2) [OF m])
next
  fix tok assume m: "first_match (bool_at U ''_deprecate'') content tok"
  show "deprecated (fst (extract_service_info U fs init_file)) = (tok = py ''True'')"
    unfolding extract_fields(3) [OF assms] deprecate_pat_def
    by (simp add: search_bool(1) [OF m])
next
  assume m: "no_match (bool_at U ''_deprecate'') content"
  show "deprecated (fst (extract_service_info U fs init_file)) = False"
    unfolding extract_fields(3) [OF assms] deprecate_pat_def
    by (simp add: search_bool(2) [OF m])
qed

theorem boolean_fields_extracted_witness:
  "fs_read (file_with drm_twice) [py ''svc'', py ''__init__.py''] = Inr drm_twice \<and>
   first_match (bool_at ascii_only ''_drm'') drm_twice (py ''False'') \<and>
   no_match (bool_at ascii_only ''_deprecate'') drm_twice \<and>
   drm_of (fst (extract_service_info ascii_only (file_with drm_twice) [py ''svc'', py ''__init__.py''])) =
     (py ''False'' = py ''True'') \<and>
   deprecated (fst (extract_service_info ascii_only (file_with drm_twice) [py ''svc'', py ''__init__.py''])) =
     False"
proof -
  have r: "fs_read (file_with drm_twice) [py ''svc'', py ''__init__.py''] = Inr drm_twice"
    by (simp add: file_with_def)
  have a: "assignment ascii_only ''_drm'' drm_twice (py ''False'' @ 10 # py ''_drm = True'')"
    unfolding assignment_def
    by (intro exI [of _ "[]"] conjI) (simp_all add: drm_twice_def py_def spaces_def)
  have "bool_at ascii_only ''_drm'' drm_twice (py ''False'')"
    unfolding bool_at_def using a by blast
  then have f: "first_match (bool_at ascii_only ''_drm'') drm_twice (py ''False'')"
    by (rule first_match_here)
  have n: "no_match (bool_at ascii_only ''_deprecate'') drm_twice"
    by (rule no_match_missing_char(2) [of 112]) (simp_all add: drm_twice_def py_def)
  note T = boolean_fields_extracted [OF r, of ascii_only]
  have 1: "drm_of (fst (extract_service_info ascii_only (file_with drm_twice) [py ''svc'', py ''__init__.py''])) =
     (py ''False'' = py ''True'')"
    using T f by blast
  have 2: "deprecated (fst (extract_service_info ascii_only (file_with drm_twice) [py ''svc'', py ''__init__.py''])) =
     False"
    using T n by blast
  show ?thesis using r f n 1 2 by blast
qed

text \<open>
  C5: in a text that was read, for each of \<open>_stream_type\<close> (value of word characters),
  \<open>_maxResolution\<close> and \<open>_region\<close> (value of word characters and whitespace): if
  \<open>v\<close> is the quoted value assigned at the leftmost position that has one, the
  extracted field is exactly \<open>v\<close>, the text between the two quotes, untrimmed and with no
  quote in it; and if no position has one, the field is "N/A".
\<close>

theorem quoted_string_fields_extracted:
  assumes "fs_read fs init_file = Inr content"
  shows
   "(\<forall>v. first_match (quoted_at U ''_stream_type'' [Word]) content v \<longrightarrow>
         stream_type_of (fst (extract_service_info U fs init_file)) = v \<and>
         34 \<notin> set v \<and> 39 \<notin> set v) \<and>
    (no_match (quoted_at U ''_stream_type'' [Word]) content \<longrightarrow>
         stream_type_of (fst (extract_service_info U fs init_file)) = py ''N/A'') \<and>
    (\<forall>v. first_match (quoted_at U ''_maxResolution'' [Word, Space]) content v \<longrightarrow>
         max_resolution_of (fst (extract_service_info U fs init_file)) = v \<and>
         34 \<notin> set v \<and> 39 \<notin> set v) \<and>
    (no_match (quoted_at U ''_maxResolution'' [Word, Space]) content \<longrightarrow>
         max_resolution_of (fst (extract_service_info U fs init_file)) = py ''N/A'') \<and>
    (\<forall>v. first_match (quoted_at U ''_region'' [Word, Space]) content v \<longrightarrow>
         region_of (fst (extract_service_info U fs init_file)) = v \<and>
         34 \<notin> set v \<and> 39 \<notin> set v) \<and>
    (no_match (quoted_at U ''_region'' [Word, Space]) content \<longrightarrow>
         region_of (fst (extract_service_info U fs init_file)) = py ''N/A'')"
proof (intro conjI allI impI)
  fix v assume m: "first_match (quoted_at U ''_stream_type'' [Word]) content v"
  show "stream_type_of (fst (extract_service_info U fs init_file)) = v"
    unfolding extract_fields(1) [OF assms] stream_type_pat_def
    by (simp add: search_quoted(1) [OF not_word_quote(1,2) m])
  show "34 \<notin> set v" "39 \<notin> set v"
    using first_match_quoted_no_quote [OF m not_word_quote(1,2)] by simp_all
next
  assume m: "no_match (quoted_at U ''_stream_type'' [Word]) content"
  show "stream_type_of (fst (extract_service_info U fs init_file)) = py ''N/A''"
    unfolding extract_fields(1) [OF assms] stream_type_pat_def
    by (simp add: search_quoted(2) [OF not_word_quote(1,2) m])
next
  fix v assume m: "first_match (quoted_at U ''_maxResolution'' [Word, Space]) content v"
  show "max_resolution_of (fst (extract_service_info U fs init_file)) = v"
    unfolding extract_fields(4) [OF assms] max_resolution_pat_def
    by (simp add: search_quoted(1) [OF not_word_quote(3,4) m])
  show "34 \<notin> set v" "39 \<notin> set v"
    using first_match_quoted_no_quote [OF m not_word_quote(3,4)] by simp_all
next
  assume m: "no_match (quoted_at U ''_maxResolution'' [Word, Space]) content"
  show "max_resolution_of (fst (extract_service_info U fs init_file)) = py ''N/A''"
    unfolding extract_fields(4) [OF assms] max_resolution_pat_def
    by (simp add: search_quoted(2) [OF not_word_quote(3,4) m])
next
  fix v assume m: "first_match (quoted_at U ''_region'' [Word, Space]) content v"
  show "region_of (fst (extract_service_info U fs init_file)) = v"
    unfolding extract_fields(5) [OF assms] region_pat_def
    by (simp add: search_quoted(1) [OF not_word_quote(3,4) m])
  show "34 \<notin> set v" "39 \<notin> set v"
    using first_match_quoted_no_quote [OF m not_word_quote(3,4)] by simp_all
next
  assume m: "no_match (quoted_at U ''_region'' [Word, Space]) content"
  show "region_of (fst (extract_service_info U fs init_file)) = py ''N/A''"
    unfolding extract_fields(5) [OF assms] region_pat_def
    by (simp add: search_quoted(2) [OF not_word_quote(3,4) m])
qed

theorem quoted_string_fields_extracted_witness:
  "fs_read (file_with region_only) [py ''svc'', py ''__init__.py''] = Inr region_only \<and>
   first_match (quoted_at ascii_only ''_region'' [Word, Space]) region_only (py '' IT '') \<and>
   no_match (quoted_at ascii_only ''_stream_type'' [Word]) region_only \<and>
   region_of (fst (extract_service_info ascii_only (file_with region_only) [py ''svc'', py ''__init__.py''])) =
     py '' IT '' \<and>
   stream_type_of (fst (extract_service_info ascii_only (file_with region_only) [py ''svc'', py ''__init__.py''])) =
     py ''N/A''"
proof -
  have r: "fs_read (file_with region_only) [py ''svc'', py ''__init__.py''] = Inr region_only"
    by (simp add: file_with_def)
  have a: "assignment ascii_only ''_region'' region_only (34 # py '' IT '' @ 34 # [])"
    unfolding assignment_def
    by (intro exI [of _ "[32]"] conjI) (simp_all add: region_only_def py_def spaces_def is_space_def)
  have "quoted_at ascii_only ''_region'' [Word, Space] region_only (py '' IT '')"
    unfolding quoted_at_def
    using a by (auto simp: py_def in_set_def is_space_def is_alnum_def)
  then have f: "first_match (quoted_at ascii_only ''_region'' [Word, Space]) region_only (py '' IT '')"
    by (rule first_match_here)
  have n: "no_match (quoted_at ascii_only ''_stream_type'' [Word]) region_only"
    by (rule no_match_missing_char(1) [of 115]) (simp_all add: region_only_def py_def)
  note T = quoted_string_fields_extracted [OF r, of ascii_only]
  have 1: "region_of (fst (extract_service_info ascii_only (file_with region_only) [py ''svc'', py ''__init__.py''])) =
     py '' IT ''"
    using T f by blast
  have 2: "stream_type_of (fst (extract_service_info ascii_only (file_with region_only) [py ''svc'', py ''__init__.py''])) =
     py ''N/A''"
    using T n by blast
  show ?thesis using r f n 1 2 by blast
qed

end
